theory Spec2Isabelle
  imports Complex_Main "HOL-Library.Char_ord" "HOL-Library.List_Lexorder" "HOL-Library.Sublist"
begin

section \<open>Smart email cleaner: data model\<close>

text \<open>
  Both scripts (\<^verbatim>\<open>gmail/smart_gmail_cleaner.py\<close> and
  \<^verbatim>\<open>outlook/smart_email_cleaner.py\<close>) pass messages around as dictionaries. The record
  below has the union of the keys the two scripts read; each script's functions read only
  their own keys. A key read with \<^verbatim>\<open>.get(k, "")\<close> or \<^verbatim>\<open>.get(k) or ""\<close> is a plain string
  (absent and empty are the same to the code); the two Outlook keys whose absence is
  visible (\<^verbatim>\<open>from.emailAddress.address\<close>, default \<^verbatim>\<open>"unknown"\<close>, and
  \<^verbatim>\<open>from.emailAddress.name\<close>, default the address) are options; where the key
  \<^verbatim>\<open>from\<close> or \<^verbatim>\<open>emailAddress\<close> is absent, both are \<open>None\<close>.
  Strings are byte strings (UTF-8); Python's integers are \<^typ>\<open>int\<close>.
\<close>

record email =
  id_email :: string
  threadId :: "string option"
  from_header :: string
  from_address :: "string option"
  from_name :: "string option"
  subject :: string
  snippet :: string
  bodyPreview :: string
  date :: string
  receivedDateTime :: string
  labelIds :: "string list"
  isRead :: bool

section \<open>Python string operations\<close>

text \<open>
  The string methods the scripts call, over byte strings. \<^verbatim>\<open>str.lower\<close> and
  \<^verbatim>\<open>str.strip\<close> are modelled on ASCII: the upper-case letters A to Z and the ASCII
  white space of \<^verbatim>\<open>str.isspace\<close> (tab, line feed, vertical tab, form feed, carriage
  return, the four separators 0x1C to 0x1F and the space); bytes of a multi-byte character
  are left as they are. Python also lowers letters outside ASCII and strips white space
  outside ASCII (such as U+00A0); on strings with such characters the model differs from
  the code, and no statement below is about such a string.
\<close>

definition lower_char :: "char \<Rightarrow> char" where
  "lower_char c =
     (case map_of (zip ''ABCDEFGHIJKLMNOPQRSTUVWXYZ'' ''abcdefghijklmnopqrstuvwxyz'') c of
        Some l \<Rightarrow> l
      | None \<Rightarrow> c)"

definition lower :: "string \<Rightarrow> string" where
  "lower s = map lower_char s"

definition isspace :: "char \<Rightarrow> bool" where
  "isspace c \<longleftrightarrow>
     c \<in> set [CHR 0x09, CHR 0x0A, CHR 0x0B, CHR 0x0C, CHR 0x0D,
               CHR 0x1C, CHR 0x1D, CHR 0x1E, CHR 0x1F, CHR 0x20]"

definition strip_chars :: "(char \<Rightarrow> bool) \<Rightarrow> string \<Rightarrow> string" where
  "strip_chars p s = rev (dropWhile p (rev (dropWhile p s)))"

definition strip :: "string \<Rightarrow> string" where
  "strip s = strip_chars isspace s"

text \<open>\<^verbatim>\<open>needle in hay\<close>: the needle starts at some position of the hay.\<close>

fun contains :: "string \<Rightarrow> string \<Rightarrow> bool" where
  "contains needle [] = (needle = [])"
| "contains needle (c # cs) = (prefix needle (c # cs) \<or> contains needle cs)"

text \<open>
  \<^verbatim>\<open>s.replace(old, new)\<close>: every occurrence of \<^verbatim>\<open>old\<close>, left to right and not
  overlapping. With an empty \<^verbatim>\<open>old\<close> Python puts \<^verbatim>\<open>new\<close> before every character and
  at the end.
\<close>

function replace_from :: "string \<Rightarrow> string \<Rightarrow> string \<Rightarrow> string" where
  "replace_from old new s =
     (if s = [] then []
      else if old \<noteq> [] \<and> prefix old s then new @ replace_from old new (drop (length old) s)
      else hd s # replace_from old new (tl s))"
  by pat_completeness auto
termination
  by (relation "measure (\<lambda>(old, new, s). length s)") auto

definition replace :: "string \<Rightarrow> string \<Rightarrow> string \<Rightarrow> string" where
  "replace old new s =
     (if old = [] then new @ concat (map (\<lambda>c. c # new) s) else replace_from old new s)"

text \<open>\<^verbatim>\<open>s.split(sep)\<close> for a separator of one character.\<close>

fun split_char :: "char \<Rightarrow> string \<Rightarrow> string list" where
  "split_char sep [] = [[]]"
| "split_char sep (c # cs) =
     (if c = sep then [] # split_char sep cs
      else (case split_char sep cs of
              [] \<Rightarrow> [[c]]
            | part # parts \<Rightarrow> (c # part) # parts))"

section \<open>Email normalizer: \<^verbatim>\<open>parse_sender\<close>\<close>

text \<open>
  \<^verbatim>\<open>re.search(r'<([^>]+)>', from_header)\<close>: the leftmost \<^verbatim>\<open><\<close> that is followed by
  one or more characters other than \<^verbatim>\<open>>\<close> and then by \<^verbatim>\<open>>\<close>. The group is greedy,
  and a shorter group would be followed by a character that is not \<^verbatim>\<open>>\<close>, so at each
  \<^verbatim>\<open><\<close> the only candidate is the whole run up to the next \<^verbatim>\<open>>\<close>.
\<close>

definition group_at :: "string \<Rightarrow> string option" where
  "group_at rest =
     (let g = takeWhile (\<lambda>c. c \<noteq> CHR ''>'') rest;
          r = dropWhile (\<lambda>c. c \<noteq> CHR ''>'') rest
      in if g \<noteq> [] \<and> r \<noteq> [] then Some g else None)"

fun search_angle :: "string \<Rightarrow> string option" where
  "search_angle [] = None"
| "search_angle (c # cs) =
     (if c = CHR ''<''
      then (case group_at cs of Some g \<Rightarrow> Some g | None \<Rightarrow> search_angle cs)
      else search_angle cs)"

definition parse_sender :: "string \<Rightarrow> string \<times> string" where
  "parse_sender header =
     (if header = [] then (''unknown'', ''unknown'')
      else case search_angle header of
        Some g \<Rightarrow>
          (let email = lower g;
               name = strip_chars (\<lambda>c. c = CHR 0x22)
                        (strip (replace (''<'' @ g @ ''>'') [] header))
           in (email, if name \<noteq> [] then name else email))
      | None \<Rightarrow>
          if CHR ''@'' \<in> set header
          then (strip (lower header), strip (lower header))
          else (header, header))"

section \<open>Marketing classifier: \<^verbatim>\<open>is_marketing_email\<close>\<close>

definition MARKETING_KEYWORDS :: "string list" where
  "MARKETING_KEYWORDS =
     [''unsubscribe'', ''opt-out'', ''opt out'', ''email preferences'', ''manage preferences'',
      ''view in browser'', ''view online'', ''click here'', ''limited time'', ''act now'',
      ''don'' @ [CHR 0x27] @ ''t miss'', ''exclusive offer'', ''special offer'', ''discount'',
      ''sale'', ''free shipping'', ''order now'', ''buy now'', ''shop now'', ''deal'', ''promo'',
      ''newsletter'', ''weekly digest'', ''daily digest'', ''notification settings'',
      ''update your preferences'', ''manage subscriptions'', ''email settings'']"

definition MARKETING_SENDER_PATTERNS :: "string list" where
  "MARKETING_SENDER_PATTERNS =
     [''noreply'', ''no-reply'', ''newsletter'', ''marketing'', ''promo'', ''offers'',
      ''deals'', ''news@'', ''info@'', ''hello@'', ''support@'', ''team@'', ''updates@'',
      ''notifications@'', ''alert@'', ''mailer'', ''campaign'', ''bulk'', ''mass'']"

text \<open>The Outlook script's list of domains; the Gmail script's list has four more.\<close>

definition OUTLOOK_KNOWN_MARKETING_DOMAINS :: "string list" where
  "OUTLOOK_KNOWN_MARKETING_DOMAINS =
     [''linkedin.com'', ''facebookmail.com'', ''twitter.com'', ''pinterest.com'',
      ''quora.com'', ''medium.com'', ''substack.com'', ''mailchimp.com'',
      ''sendgrid.net'', ''amazonses.com'', ''constantcontact.com'',
      ''hubspot.com'', ''salesforce.com'', ''marketo.com'', ''pardot.com'',
      ''groupon.com'', ''retailmenot.com'', ''slickdeals.net'',
      ''wish.com'', ''aliexpress.com'', ''banggood.com'', ''shein.com'',
      ''spotify.com'', ''netflix.com'', ''hulu.com'', ''discord.com'',
      ''uber.com'', ''lyft.com'', ''doordash.com'', ''grubhub.com'',
      ''yelp.com'', ''tripadvisor.com'', ''booking.com'', ''expedia.com'']"

definition GMAIL_KNOWN_MARKETING_DOMAINS :: "string list" where
  "GMAIL_KNOWN_MARKETING_DOMAINS =
     OUTLOOK_KNOWN_MARKETING_DOMAINS
       @ [''youtube.com'', ''tiktok.com'', ''instagram.com'', ''snapchat.com'']"

text \<open>
  The reasons are the strings the code appends, kept as values: the constructor is the
  fixed text and its argument the formatted part.
\<close>

datatype reason =
    gmail_promotions
  | gmail_social
  | sender_pattern string
  | known_domain string
  | keywords_many int
  | keywords_some int
  | contains_unsubscribe

text \<open>
  The scoring both scripts share, statement by statement: the first sender pattern found
  in the address or the name (\<^verbatim>\<open>break\<close> after the first), the first known domain found in
  the address, the number of keywords found in the text, and the word
  \<^verbatim>\<open>unsubscribe\<close> once more. Each step hands on the score and the reasons so far.
\<close>

definition heuristic_score ::
  "string list \<Rightarrow> string \<Rightarrow> string \<Rightarrow> string \<Rightarrow> int \<times> reason list" where
  "heuristic_score domains sender_email sender_name text =
     (let (score1, reasons1) =
            (case find (\<lambda>p. contains p sender_email \<or> contains p sender_name)
                    MARKETING_SENDER_PATTERNS of
               Some p \<Rightarrow> (2, [sender_pattern p])
             | None \<Rightarrow> (0, []));
          (score2, reasons2) =
            (case find (\<lambda>d. contains d sender_email) domains of
               Some d \<Rightarrow> (score1 + 3, reasons1 @ [known_domain d])
             | None \<Rightarrow> (score1, reasons1));
          keyword_matches = int (length (filter (\<lambda>k. contains k text) MARKETING_KEYWORDS));
          (score3, reasons3) =
            (if keyword_matches \<ge> 3
             then (score2 + 4, reasons2 @ [keywords_many keyword_matches])
             else if keyword_matches \<ge> 1
             then (score2 + 2, reasons2 @ [keywords_some keyword_matches])
             else (score2, reasons2))
      in if contains ''unsubscribe'' text
         then (score3 + 3, reasons3 @ [contains_unsubscribe])
         else (score3, reasons3))"

definition gmail_is_marketing_email :: "email \<Rightarrow> bool \<times> int \<times> reason list" where
  "gmail_is_marketing_email e =
     (let subject_l = lower (subject e);
          snippet_l = lower (snippet e);
          (sender_email, sender_name0) = parse_sender (from_header e);
          sender_name = lower sender_name0;
          labels = labelIds e
      in if ''CATEGORY_PROMOTIONS'' \<in> set labels then (True, 5, [gmail_promotions])
         else if ''CATEGORY_SOCIAL'' \<in> set labels then (True, 4, [gmail_social])
         else (let (score, reasons) =
                     heuristic_score GMAIL_KNOWN_MARKETING_DOMAINS sender_email sender_name
                       (subject_l @ '' '' @ snippet_l)
               in (score \<ge> 3, score, reasons)))"

definition outlook_is_marketing_email :: "email \<Rightarrow> bool \<times> int \<times> reason list" where
  "outlook_is_marketing_email e =
     (let subject_l = lower (subject e);
          body_preview = lower (bodyPreview e);
          sender_email = lower (case from_address e of None \<Rightarrow> [] | Some a \<Rightarrow> a);
          sender_name = lower (case from_name e of None \<Rightarrow> [] | Some n \<Rightarrow> n);
          (score, reasons) =
            heuristic_score OUTLOOK_KNOWN_MARKETING_DOMAINS sender_email sender_name
              (subject_l @ '' '' @ body_preview)
      in (score \<ge> 3, score, reasons))"

section \<open>Sender aggregator: \<^verbatim>\<open>analyze_emails\<close>\<close>

text \<open>
  The per-sender accumulator is the dictionary the \<^verbatim>\<open>defaultdict\<close> factory creates. The
  key \<^verbatim>\<open>total\<close> is the field \<open>total_count\<close>. The Outlook factory has no key
  \<^verbatim>\<open>is_promotional\<close> and the Outlook script never reads it. \<^verbatim>\<open>read_rate\<close> is the exact
  quotient: Python computes the nearest double, which orders against 0, 0.2 and 1 as the
  exact quotient does for counts below \<open>10^15\<close>.
\<close>

record sender_stats =
  total_count :: int
  unread :: int
  read :: int
  marketing_score :: int
  emails :: "email list"
  name :: string
  oldest :: "string option"
  newest :: "string option"
  read_rate :: rat
  is_promotional :: bool

definition default_stats :: sender_stats where
  "default_stats =
     \<lparr>total_count = 0, unread = 0, read = 0, marketing_score = 0, emails = [], name = [],
      oldest = None, newest = None, read_rate = 0, is_promotional = False\<rparr>"

text \<open>
  The \<^verbatim>\<open>defaultdict\<close> keeps its keys in the order of their first use, and later loops
  iterate in that order: an association list with get-or-create.
\<close>

type_synonym stats_dict = "(string \<times> sender_stats) list"

fun upsert :: "string \<Rightarrow> (sender_stats \<Rightarrow> sender_stats) \<Rightarrow> stats_dict \<Rightarrow> stats_dict" where
  "upsert k f [] = [(k, f default_stats)]"
| "upsert k f ((k', v) # rest) =
     (if k = k' then (k', f v) # rest else (k', v) # upsert k f rest)"

text \<open>
  \<^verbatim>\<open>if not stats["oldest"] or d < stats["oldest"]\<close>, and the same for the newest: string
  comparison, which is the lexicographic order of the bytes.
\<close>

definition track_dates :: "string \<Rightarrow> sender_stats \<Rightarrow> sender_stats" where
  "track_dates d st =
     (if d = [] then st
      else
        (let st1 = (if (case oldest st of None \<Rightarrow> True | Some old \<Rightarrow> old = [] \<or> d < old)
                    then st\<lparr>oldest := Some d\<rparr> else st)
         in if (case newest st1 of None \<Rightarrow> True | Some new \<Rightarrow> new = [] \<or> d > new)
            then st1\<lparr>newest := Some d\<rparr> else st1))"

definition count_read :: "bool \<Rightarrow> sender_stats \<Rightarrow> sender_stats" where
  "count_read is_read st =
     (if is_read then st\<lparr>read := read st + 1\<rparr> else st\<lparr>unread := unread st + 1\<rparr>)"

text \<open>The body of the Gmail loop, on the sender's record.\<close>

definition gmail_record_email :: "email \<Rightarrow> sender_stats \<Rightarrow> sender_stats" where
  "gmail_record_email e st =
     (let (sender_email, sender_name) = parse_sender (from_header e);
          is_read = isRead e;
          (is_marketing, score, reasons) = gmail_is_marketing_email e;
          st1 = st\<lparr>total_count := total_count st + 1, name := sender_name,
                   emails := emails st @ [e],
                   marketing_score := max (marketing_score st) score\<rparr>;
          st2 = (if ''CATEGORY_PROMOTIONS'' \<in> set (labelIds e)
                 then st1\<lparr>is_promotional := True\<rparr> else st1)
      in track_dates (date e) (count_read is_read st2))"

fun gmail_aggregate :: "email list \<Rightarrow> stats_dict \<Rightarrow> stats_dict" where
  "gmail_aggregate [] sender_stats = sender_stats"
| "gmail_aggregate (e # rest) sender_stats =
     gmail_aggregate rest
       (upsert (fst (parse_sender (from_header e))) (gmail_record_email e) sender_stats)"

text \<open>The body of the Outlook loop.\<close>

definition outlook_sender :: "email \<Rightarrow> string \<times> string" where
  "outlook_sender e =
     (let addr = lower (case from_address e of None \<Rightarrow> ''unknown'' | Some a \<Rightarrow> a)
      in (addr, case from_name e of None \<Rightarrow> addr | Some n \<Rightarrow> n))"

definition outlook_record_email :: "email \<Rightarrow> sender_stats \<Rightarrow> sender_stats" where
  "outlook_record_email e st =
     (let (addr, sender_name) = outlook_sender e;
          is_read = isRead e;
          received = receivedDateTime e;
          (is_marketing, score, reasons) = outlook_is_marketing_email e;
          st1 = st\<lparr>total_count := total_count st + 1, name := sender_name,
                   emails := emails st @ [e],
                   marketing_score := max (marketing_score st) score\<rparr>
      in track_dates received (count_read is_read st1))"

fun outlook_aggregate :: "email list \<Rightarrow> stats_dict \<Rightarrow> stats_dict" where
  "outlook_aggregate [] sender_stats = sender_stats"
| "outlook_aggregate (e # rest) sender_stats =
     outlook_aggregate rest
       (upsert (fst (outlook_sender e)) (outlook_record_email e) sender_stats)"

text \<open>
  The last loop of both scripts computes the read rates. Python's \<^verbatim>\<open>/\<close> raises
  \<^verbatim>\<open>ZeroDivisionError\<close> on a zero divisor, and nothing in \<^verbatim>\<open>analyze_emails\<close> would
  catch it: the error is a result of the function.
\<close>

datatype py_error = ZeroDivisionError | ValueError

definition truediv :: "int \<Rightarrow> int \<Rightarrow> py_error + rat" where
  "truediv a b = (if b = 0 then Inl ZeroDivisionError else Inr (of_int a / of_int b))"

fun calc_read_rates :: "stats_dict \<Rightarrow> py_error + stats_dict" where
  "calc_read_rates [] = Inr []"
| "calc_read_rates ((addr, st) # rest) =
     (case (if total_count st > 0
            then (case truediv (read st) (total_count st) of
                    Inl err \<Rightarrow> Inl err
                  | Inr q \<Rightarrow> Inr (st\<lparr>read_rate := q\<rparr>))
            else Inr st) of
        Inl err \<Rightarrow> Inl err
      | Inr st' \<Rightarrow>
          (case calc_read_rates rest of
             Inl err \<Rightarrow> Inl err
           | Inr rest' \<Rightarrow> Inr ((addr, st') # rest')))"

definition gmail_analyze_emails :: "email list \<Rightarrow> py_error + stats_dict" where
  "gmail_analyze_emails es = calc_read_rates (gmail_aggregate es [])"

definition outlook_analyze_emails :: "email list \<Rightarrow> py_error + stats_dict" where
  "outlook_analyze_emails es = calc_read_rates (outlook_aggregate es [])"

section \<open>Categorizer: \<^verbatim>\<open>categorize_senders\<close>\<close>

text \<open>
  A category holds its members and its message count; the title and the description are
  fixed display texts that no rule reads, and are left out. The dictionary of categories
  keeps the order in which the script writes its keys.
\<close>

record category =
  senders :: "(string \<times> sender_stats) list"
  email_count :: int

type_synonym categories = "(string \<times> category) list"

definition empty_category :: category where
  "empty_category = \<lparr>senders = [], email_count = 0\<rparr>"

definition gmail_categories :: categories where
  "gmail_categories =
     [(''promotional'', empty_category), (''marketing'', empty_category),
      (''never_opened'', empty_category), (''rarely_opened'', empty_category),
      (''old_unread'', empty_category), (''bulk_senders'', empty_category)]"

definition outlook_categories :: categories where
  "outlook_categories =
     [(''marketing'', empty_category), (''never_opened'', empty_category),
      (''rarely_opened'', empty_category), (''old_unread'', empty_category),
      (''bulk_senders'', empty_category)]"

text \<open>
  \<^verbatim>\<open>categories[key]["senders"].append(member); categories[key]["email_count"] += n\<close>
\<close>

definition add_sender ::
  "string \<Rightarrow> string \<times> sender_stats \<Rightarrow> int \<Rightarrow> categories \<Rightarrow> categories" where
  "add_sender key member n cats =
     map (\<lambda>(k, c). if k = key
                     then (k, c\<lparr>senders := senders c @ [member],
                                email_count := email_count c + n\<rparr>)
                     else (k, c)) cats"

text \<open>
  Dates. \<^verbatim>\<open>datetime.strptime\<close> and \<^verbatim>\<open>datetime.fromisoformat\<close> belong to Python's library:
  they are parameters, returning \<open>None\<close> where the library raises. A date-time is its
  wall-clock reading in microseconds and its offset from UTC, if it has one;
  \<^verbatim>\<open>replace(tzinfo=None)\<close> drops the offset and keeps the reading. The cutoff
  \<^verbatim>\<open>thirty_days_ago\<close> is a naive date-time computed from the clock, a parameter as well.
\<close>

record datetime =
  wall_clock :: int
  utcoffset :: "int option"

type_synonym strptime_fun = "string \<Rightarrow> string \<Rightarrow> datetime option"
type_synonym fromisoformat_fun = "string \<Rightarrow> datetime option"

definition thirty_days_before :: "int \<Rightarrow> int" where
  "thirty_days_before now = now - 30 * 86400 * 1000000"

definition gmail_date_formats :: "string list" where
  "gmail_date_formats = [''%a, %d %b %Y %H:%M:%S %z'', ''%d %b %Y %H:%M:%S %z'']"

text \<open>
  The loop over the formats: a format that parses decides (\<^verbatim>\<open>break\<close>), one that raises
  is skipped (\<^verbatim>\<open>except: continue\<close>). The result says whether the message was appended.
\<close>

fun gmail_try_formats :: "strptime_fun \<Rightarrow> int \<Rightarrow> string \<Rightarrow> string list \<Rightarrow> bool" where
  "gmail_try_formats strptime thirty_days_ago s [] = False"
| "gmail_try_formats strptime thirty_days_ago s (fmt # fmts) =
     (case strptime s fmt of
        Some email_date \<Rightarrow> wall_clock email_date < thirty_days_ago
      | None \<Rightarrow> gmail_try_formats strptime thirty_days_ago s fmts)"

definition gmail_is_old_unread :: "strptime_fun \<Rightarrow> int \<Rightarrow> email \<Rightarrow> bool" where
  "gmail_is_old_unread strptime thirty_days_ago e =
     (\<not> isRead e \<and> date e \<noteq> []
      \<and> gmail_try_formats strptime thirty_days_ago (take 31 (date e)) gmail_date_formats)"

definition outlook_is_old_unread :: "fromisoformat_fun \<Rightarrow> int \<Rightarrow> email \<Rightarrow> bool" where
  "outlook_is_old_unread fromisoformat thirty_days_ago e =
     (\<not> isRead e \<and> receivedDateTime e \<noteq> []
      \<and> (case fromisoformat (replace ''Z'' ''+00:00'' (receivedDateTime e)) of
            Some received_date \<Rightarrow> wall_clock received_date < thirty_days_ago
          | None \<Rightarrow> False))"

text \<open>
  \<^verbatim>\<open>old_stats = stats.copy(); old_stats["emails"] = ...; old_stats["total"] = ...\<close>
\<close>

definition old_stats :: "sender_stats \<Rightarrow> email list \<Rightarrow> sender_stats" where
  "old_stats st old_unread_emails =
     st\<lparr>emails := old_unread_emails, total_count := int (length old_unread_emails)\<rparr>"

text \<open>The rules the two scripts share, for one sender.\<close>

definition opened_rules :: "string \<Rightarrow> sender_stats \<Rightarrow> categories \<Rightarrow> categories" where
  "opened_rules addr st cats =
     (if total_count st \<ge> 5 \<and> read st = 0
      then add_sender ''never_opened'' (addr, st) (total_count st) cats
      else if total_count st \<ge> 3 \<and> read_rate st < 2 / 10 \<and> read_rate st > 0
      then add_sender ''rarely_opened'' (addr, st) (total_count st) cats
      else cats)"

definition bulk_rule :: "string \<Rightarrow> sender_stats \<Rightarrow> categories \<Rightarrow> categories" where
  "bulk_rule addr st cats =
     (if total_count st \<ge> 20
      then add_sender ''bulk_senders'' (addr, st) (total_count st) cats
      else cats)"

definition old_unread_rule ::
  "(email \<Rightarrow> bool) \<Rightarrow> string \<Rightarrow> sender_stats \<Rightarrow> categories \<Rightarrow> categories" where
  "old_unread_rule is_old addr st cats =
     (let old_unread_emails = filter is_old (emails st)
      in if old_unread_emails \<noteq> []
         then add_sender ''old_unread'' (addr, old_stats st old_unread_emails)
                (int (length old_unread_emails)) cats
         else cats)"

definition gmail_categorize_sender ::
  "strptime_fun \<Rightarrow> int \<Rightarrow> categories \<Rightarrow> string \<times> sender_stats \<Rightarrow> categories" where
  "gmail_categorize_sender strptime thirty_days_ago cats item =
     (let (addr, st) = item;
          cats1 = (if is_promotional st
                   then add_sender ''promotional'' (addr, st) (total_count st) cats
                   else if marketing_score st \<ge> 3
                   then add_sender ''marketing'' (addr, st) (total_count st) cats
                   else cats)
      in old_unread_rule (gmail_is_old_unread strptime thirty_days_ago) addr st
           (bulk_rule addr st (opened_rules addr st cats1)))"

definition outlook_categorize_sender ::
  "fromisoformat_fun \<Rightarrow> int \<Rightarrow> categories \<Rightarrow> string \<times> sender_stats \<Rightarrow> categories" where
  "outlook_categorize_sender fromisoformat thirty_days_ago cats item =
     (let (addr, st) = item;
          cats1 = (if marketing_score st \<ge> 3
                   then add_sender ''marketing'' (addr, st) (total_count st) cats
                   else cats)
      in old_unread_rule (outlook_is_old_unread fromisoformat thirty_days_ago) addr st
           (bulk_rule addr st (opened_rules addr st cats1)))"

text \<open>
  \<^verbatim>\<open>cat["senders"].sort(key=lambda x: x[1]["total"], reverse=True)\<close>: a stable sort,
  descending by the member's count.
\<close>

definition sort_senders :: "categories \<Rightarrow> categories" where
  "sort_senders cats =
     map (\<lambda>(k, c). (k, c\<lparr>senders := sort_key (\<lambda>x. - total_count (snd x)) (senders c)\<rparr>)) cats"

definition gmail_categorize_senders :: "strptime_fun \<Rightarrow> int \<Rightarrow> stats_dict \<Rightarrow> categories" where
  "gmail_categorize_senders strptime now sender_stats =
     sort_senders
       (foldl (gmail_categorize_sender strptime (thirty_days_before now))
          gmail_categories sender_stats)"

definition outlook_categorize_senders ::
  "fromisoformat_fun \<Rightarrow> int \<Rightarrow> stats_dict \<Rightarrow> categories" where
  "outlook_categorize_senders fromisoformat now sender_stats =
     sort_senders
       (foldl (outlook_categorize_sender fromisoformat (thirty_days_before now))
          outlook_categories sender_stats)"

text \<open>
  The copy at the level of objects. The sender records live in a store, a reference is an
  index into it. \<^verbatim>\<open>stats.copy()\<close> allocates a new dictionary with the same values under
  the same keys, and the two assignments write to the new dictionary.
\<close>

type_synonym store = "sender_stats list"

definition dict_copy :: "store \<Rightarrow> nat \<Rightarrow> store \<times> nat" where
  "dict_copy h r = (h @ [h ! r], length h)"

definition set_emails :: "store \<Rightarrow> nat \<Rightarrow> email list \<Rightarrow> store" where
  "set_emails h r v = h[r := (h ! r)\<lparr>emails := v\<rparr>]"

definition set_total :: "store \<Rightarrow> nat \<Rightarrow> int \<Rightarrow> store" where
  "set_total h r v = h[r := (h ! r)\<lparr>total_count := v\<rparr>]"

definition build_old_stats :: "store \<Rightarrow> nat \<Rightarrow> email list \<Rightarrow> store \<times> nat" where
  "build_old_stats h stats old_unread_emails =
     (let (h1, old) = dict_copy h stats;
          h2 = set_emails h1 old old_unread_emails;
          h3 = set_total h2 old (int (length old_unread_emails))
      in (h3, old))"

section \<open>Selection resolver: the auto-clean branch of \<^verbatim>\<open>interactive_menu\<close>\<close>

text \<open>
  Three nested loops over the categories, their members and the members' messages, with
  the set of ids seen so far and the list of messages kept.
\<close>

type_synonym dedup_state = "string set \<times> email list"

fun add_emails :: "email list \<Rightarrow> dedup_state \<Rightarrow> dedup_state" where
  "add_emails [] s = s"
| "add_emails (e # rest) (all_email_ids, all_emails) =
     (if id_email e \<notin> all_email_ids
      then add_emails rest (insert (id_email e) all_email_ids, all_emails @ [e])
      else add_emails rest (all_email_ids, all_emails))"

fun add_members :: "(string \<times> sender_stats) list \<Rightarrow> dedup_state \<Rightarrow> dedup_state" where
  "add_members [] s = s"
| "add_members ((addr, st) # rest) s = add_members rest (add_emails (emails st) s)"

fun add_categories :: "category list \<Rightarrow> dedup_state \<Rightarrow> dedup_state" where
  "add_categories [] s = s"
| "add_categories (cat # rest) s = add_categories rest (add_members (senders cat) s)"

definition auto_clean_emails :: "categories \<Rightarrow> email list" where
  "auto_clean_emails cats = snd (add_categories (map snd cats) ({}, []))"

text \<open>The messages in the order the loops meet them, duplicates included.\<close>

definition encounter_order :: "categories \<Rightarrow> email list" where
  "encounter_order cats =
     concat (map (\<lambda>cat. concat (map (\<lambda>m. emails (snd m)) (senders cat))) (map snd cats))"

section \<open>Selection expressions: the select branch of \<^verbatim>\<open>interactive_menu\<close>\<close>

text \<open>
  \<^verbatim>\<open>int(s)\<close> on a string: white space around, an optional sign, then decimal digits
  with single underscores allowed between digits; anything else raises \<^verbatim>\<open>ValueError\<close>,
  and so does a numeral of more than 4300 digits (the default limit of the interpreter).
  The digits are the ASCII digits: a decimal digit of another script, which \<^verbatim>\<open>int\<close>
  also accepts, is not modelled and counts as a character that does not convert.
\<close>

definition digit_value :: "char \<Rightarrow> nat option" where
  "digit_value c = map_of (zip ''0123456789'' [0, 1, 2, 3, 4, 5, 6, 7, 8, 9]) c"

fun parse_digits :: "bool \<Rightarrow> nat \<Rightarrow> string \<Rightarrow> nat option" where
  "parse_digits after_digit acc [] = (if after_digit then Some acc else None)"
| "parse_digits after_digit acc (c # cs) =
     (case digit_value c of
        Some d \<Rightarrow> parse_digits True (10 * acc + d) cs
      | None \<Rightarrow> if c = CHR ''_'' \<and> after_digit then parse_digits False acc cs else None)"

definition py_int :: "string \<Rightarrow> py_error + int" where
  "py_int s =
     (case strip s of
        [] \<Rightarrow> Inl ValueError
      | c # cs \<Rightarrow>
          (let body = (if c = CHR ''-'' \<or> c = CHR ''+'' then cs else c # cs)
           in case parse_digits False 0 body of
                None \<Rightarrow> Inl ValueError
              | Some n \<Rightarrow>
                  if length (filter (\<lambda>d. d \<noteq> CHR ''_'') body) > 4300 then Inl ValueError
                  else Inr (if c = CHR ''-'' then - int n else int n)))"

text \<open>
  \<^verbatim>\<open>xs[start:stop]\<close>: a negative bound counts from the end, and both bounds are clamped
  to the list.
\<close>

definition slice_bound :: "nat \<Rightarrow> int \<Rightarrow> nat" where
  "slice_bound n i = nat (max 0 (min (int n) (if i < 0 then i + int n else i)))"

definition py_slice :: "'a list \<Rightarrow> int \<Rightarrow> int \<Rightarrow> 'a list" where
  "py_slice xs start stop =
     (let lo = slice_bound (length xs) start; hi = slice_bound (length xs) stop
      in take (hi - lo) (drop lo xs))"

text \<open>
  \<^verbatim>\<open>a, b = map(int, sel.split('-'))\<close>: two parts that both convert, or \<^verbatim>\<open>ValueError\<close>
  (from \<^verbatim>\<open>int\<close> or from the unpacking).
\<close>

definition parse_range :: "string \<Rightarrow> py_error + int \<times> int" where
  "parse_range sel =
     (case split_char (CHR ''-'') sel of
        [x, y] \<Rightarrow>
          (case py_int x of
             Inl err \<Rightarrow> Inl err
           | Inr a \<Rightarrow> (case py_int y of Inl err \<Rightarrow> Inl err | Inr b \<Rightarrow> Inr (a, b)))
      | _ \<Rightarrow> Inl ValueError)"

text \<open>\<^verbatim>\<open>[int(x.strip()) for x in sel.split(',')]\<close>\<close>

fun int_all :: "string list \<Rightarrow> py_error + int list" where
  "int_all [] = Inr []"
| "int_all (x # xs) =
     (case py_int (strip x) of
        Inl err \<Rightarrow> Inl err
      | Inr n \<Rightarrow> (case int_all xs of Inl err \<Rightarrow> Inl err | Inr ns \<Rightarrow> Inr (n # ns)))"

definition parse_list :: "string \<Rightarrow> py_error + int list" where
  "parse_list sel = int_all (split_char (CHR '','') sel)"

text \<open>
  The selection for the line the user typed, over the displayed members. Each
  \<^verbatim>\<open>except\<close> prints a message and leaves \<^verbatim>\<open>selected\<close> as it was, the empty list.
\<close>

definition resolve_selection :: "string \<Rightarrow> 'a list \<Rightarrow> 'a list" where
  "resolve_selection line displayed =
     (let sel = lower (strip line)
      in if sel = ''all'' then displayed
         else if CHR ''-'' \<in> set sel \<and> CHR '','' \<notin> set sel
         then (case parse_range sel of
                 Inr (a, b) \<Rightarrow> py_slice displayed (a - 1) b
               | Inl err \<Rightarrow> [])
         else (case parse_list sel of
                 Inr nums \<Rightarrow>
                   map (\<lambda>n. displayed ! nat (n - 1))
                     (filter (\<lambda>n. 0 < n \<and> n \<le> int (length displayed)) nums)
               | Inl err \<Rightarrow> []))"

section \<open>Batch mutation executor: \<^verbatim>\<open>delete_emails_batch\<close>\<close>

text \<open>
  The mail provider is outside the program. One mutation request either returns (for
  Outlook with an HTTP status code, for Gmail with a response the code ignores) or raises
  an exception that \<^verbatim>\<open>except Exception\<close> catches. The provider is a function of the loop
  index and the request, so that every pattern of outcomes over the positions of the input
  is an instance. The state of the loop holds the two counters and, as a trace of the
  effects, the requests issued so far, the progress lines printed and the number of
  one-second pauses. Printing a progress line and pausing are taken to return; the
  Outlook script reads the message id before its \<^verbatim>\<open>try\<close>, and every message has one.
\<close>

datatype request = trash_request string | delete_request string

datatype reply = Returned nat | Raised

type_synonym provider = "nat \<Rightarrow> request \<Rightarrow> reply"

record batch_state =
  success :: int
  failed :: int
  issued :: "request list"
  progress :: "(nat \<times> nat \<times> int \<times> int) list"
  sleeps :: nat

definition batch_init :: batch_state where
  "batch_init = \<lparr>success = 0, failed = 0, issued = [], progress = [], sleeps = 0\<rparr>"

definition mutation_request :: "bool \<Rightarrow> email \<Rightarrow> request" where
  "mutation_request to_trash e =
     (if to_trash then trash_request (id_email e) else delete_request (id_email e))"

definition report_and_pace :: "nat \<Rightarrow> nat \<Rightarrow> batch_state \<Rightarrow> batch_state" where
  "report_and_pace i n s =
     (let s1 = (if (i + 1) mod 50 = 0
                then s\<lparr>progress := progress s @ [(i + 1, n, success s, failed s)]\<rparr> else s)
      in if (i + 1) mod 100 = 0 then s1\<lparr>sleeps := sleeps s1 + 1\<rparr> else s1)"

text \<open>
  Gmail: the body of the \<^verbatim>\<open>try\<close> issues the request, and when the call returns counts a
  success, reports and paces; when the call raises, the handler counts a failure and the
  loop goes on with the next message.
\<close>

fun gmail_delete_loop ::
  "provider \<Rightarrow> bool \<Rightarrow> nat \<Rightarrow> nat \<Rightarrow> email list \<Rightarrow> batch_state \<Rightarrow> batch_state" where
  "gmail_delete_loop service to_trash n i [] s = s"
| "gmail_delete_loop service to_trash n i (e # rest) s =
     (let req = mutation_request to_trash e;
          s1 = s\<lparr>issued := issued s @ [req]\<rparr>
      in case service i req of
           Returned r \<Rightarrow>
             gmail_delete_loop service to_trash n (i + 1) rest
               (report_and_pace i n (s1\<lparr>success := success s1 + 1\<rparr>))
         | Raised \<Rightarrow>
             gmail_delete_loop service to_trash n (i + 1) rest (s1\<lparr>failed := failed s1 + 1\<rparr>))"

definition gmail_delete_run :: "provider \<Rightarrow> email list \<Rightarrow> bool \<Rightarrow> batch_state" where
  "gmail_delete_run service es to_trash =
     gmail_delete_loop service to_trash (length es) 0 es batch_init"

definition gmail_delete_emails_batch :: "provider \<Rightarrow> email list \<Rightarrow> bool \<Rightarrow> int \<times> int" where
  "gmail_delete_emails_batch service es to_trash =
     (let s = gmail_delete_run service es to_trash in (success s, failed s))"

text \<open>
  Outlook: a returned request succeeded when its status is 201 (move to the deleted items)
  or 204 (permanent delete); any other status is a failure reported by the provider.
  Progress and pacing follow every request that returned.
\<close>

fun outlook_delete_loop ::
  "provider \<Rightarrow> bool \<Rightarrow> nat \<Rightarrow> nat \<Rightarrow> email list \<Rightarrow> batch_state \<Rightarrow> batch_state" where
  "outlook_delete_loop service to_trash n i [] s = s"
| "outlook_delete_loop service to_trash n i (e # rest) s =
     (let req = mutation_request to_trash e;
          s1 = s\<lparr>issued := issued s @ [req]\<rparr>
      in case service i req of
           Returned status \<Rightarrow>
             (let ok = (if to_trash then status = 201 else status = 204);
                  s2 = (if ok then s1\<lparr>success := success s1 + 1\<rparr>
                        else s1\<lparr>failed := failed s1 + 1\<rparr>)
              in outlook_delete_loop service to_trash n (i + 1) rest (report_and_pace i n s2))
         | Raised \<Rightarrow>
             outlook_delete_loop service to_trash n (i + 1) rest (s1\<lparr>failed := failed s1 + 1\<rparr>))"

definition outlook_delete_run :: "provider \<Rightarrow> email list \<Rightarrow> bool \<Rightarrow> batch_state" where
  "outlook_delete_run service es to_trash =
     outlook_delete_loop service to_trash (length es) 0 es batch_init"

definition outlook_delete_emails_batch :: "provider \<Rightarrow> email list \<Rightarrow> bool \<Rightarrow> int \<times> int" where
  "outlook_delete_emails_batch service es to_trash =
     (let s = outlook_delete_run service es to_trash in (success s, failed s))"

section \<open>Notions for the statements\<close>

text \<open>
  What holds of a sender's record at every step of the aggregation: the counters add up,
  the total is the number of messages kept, and no counter is negative.
\<close>

definition stats_ok :: "sender_stats \<Rightarrow> bool" where
  "stats_ok st \<longleftrightarrow>
     read st + unread st = total_count st \<and> total_count st = int (length (emails st))
     \<and> 0 \<le> read st \<and> 0 \<le> unread st"

text \<open>What the last loop of \<^verbatim>\<open>analyze_emails\<close> makes of one record.\<close>

definition finalized :: "sender_stats \<Rightarrow> sender_stats" where
  "finalized st =
     (if total_count st > 0
      then st\<lparr>read_rate := of_int (read st) / of_int (total_count st)\<rparr> else st)"

text \<open>
  The equalities of the counters, for every record and summed over the senders of an
  analysis of the messages \<open>es\<close>.
\<close>

definition counts_agree :: "email list \<Rightarrow> stats_dict \<Rightarrow> bool" where
  "counts_agree es sender_stats \<longleftrightarrow>
     (\<forall>(addr, st)\<in>set sender_stats.
        read st + unread st = total_count st \<and> total_count st = int (length (emails st)))
     \<and> sum_list (map (\<lambda>(addr, st). read st) sender_stats)
         + sum_list (map (\<lambda>(addr, st). unread st) sender_stats)
       = sum_list (map (\<lambda>(addr, st). total_count st) sender_stats)
     \<and> sum_list (map (\<lambda>(addr, st). total_count st) sender_stats) = int (length es)"

text \<open>
  The messages of a list whose id is not among those seen and not met earlier in the list:
  what the loops of the auto-clean branch keep.
\<close>

fun firsts :: "string set \<Rightarrow> email list \<Rightarrow> email list" where
  "firsts seen [] = []"
| "firsts seen (e # es) =
     (if id_email e \<in> seen then firsts seen es else e # firsts (insert (id_email e) seen) es)"

text \<open>
  The first encounters of a list by position: the entries whose id does not occur at an
  earlier position, in the order of the list.
\<close>

definition first_encounters :: "email list \<Rightarrow> email list" where
  "first_encounters all_found =
     map (\<lambda>i. all_found ! i)
       (filter (\<lambda>i. id_email (all_found ! i) \<notin> id_email ` set (take i all_found))
          [0..<length all_found])"

text \<open>
  The members of the category under a key, and what it is for a sender's pair to be placed
  in it.
\<close>

definition members :: "string \<Rightarrow> categories \<Rightarrow> (string \<times> sender_stats) list" where
  "members key cats = (case map_of cats key of None \<Rightarrow> [] | Some c \<Rightarrow> senders c)"

definition placed_in :: "string \<Rightarrow> categories \<Rightarrow> string \<times> sender_stats \<Rightarrow> bool" where
  "placed_in key cats member \<longleftrightarrow> member \<in> set (members key cats)"

text \<open>
  The rules for one sender, as predicates and as the members each key receives: used to
  describe the result of the loop over the senders.
\<close>

definition never_opened_rule :: "sender_stats \<Rightarrow> bool" where
  "never_opened_rule st \<longleftrightarrow> total_count st \<ge> 5 \<and> read st = 0"

definition rarely_opened_rule :: "sender_stats \<Rightarrow> bool" where
  "rarely_opened_rule st \<longleftrightarrow>
     \<not> never_opened_rule st \<and> total_count st \<ge> 3 \<and> 0 < read_rate st \<and> read_rate st < 2 / 10"

definition old_unread_member :: "(email \<Rightarrow> bool) \<Rightarrow> string \<times> sender_stats \<Rightarrow> (string \<times> sender_stats) list" where
  "old_unread_member is_old item =
     (if filter is_old (emails (snd item)) \<noteq> []
      then [(fst item, old_stats (snd item) (filter is_old (emails (snd item))))] else [])"

definition placed_by :: "(email \<Rightarrow> bool) \<Rightarrow> string \<Rightarrow> string \<times> sender_stats \<Rightarrow> (string \<times> sender_stats) list" where
  "placed_by is_old key item =
     (if key = ''never_opened'' \<and> never_opened_rule (snd item)
         \<or> key = ''rarely_opened'' \<and> rarely_opened_rule (snd item) then [item] else [])
     @ (if key = ''old_unread'' then old_unread_member is_old item else [])"

text \<open>
  A derived record against the sender's record: the messages are the qualifying ones, the
  total is their number, every other field is the sender's.
\<close>

definition derived_from :: "(email \<Rightarrow> bool) \<Rightarrow> sender_stats \<Rightarrow> sender_stats \<Rightarrow> bool" where
  "derived_from is_old st derived \<longleftrightarrow>
     emails derived = filter is_old (emails st)
     \<and> total_count derived = int (length (emails derived))
     \<and> read derived = read st \<and> unread derived = unread st
     \<and> read_rate derived = read_rate st \<and> name derived = name st
     \<and> oldest derived = oldest st \<and> newest derived = newest st
     \<and> marketing_score derived = marketing_score st
     \<and> is_promotional derived = is_promotional st"

text \<open>
  The replies of the provider to the requests of a batch, in the order of the messages,
  the first at loop index \<open>i\<close>; and the replies the Outlook script counts as a success.
\<close>

definition replies_from :: "provider \<Rightarrow> bool \<Rightarrow> nat \<Rightarrow> email list \<Rightarrow> reply list" where
  "replies_from service to_trash i es =
     map (\<lambda>(j, e). service j (mutation_request to_trash e)) (enumerate i es)"

definition outlook_ok :: "bool \<Rightarrow> reply \<Rightarrow> bool" where
  "outlook_ok to_trash r =
     (case r of
        Returned status \<Rightarrow> (if to_trash then status = 201 else status = 204)
      | Raised \<Rightarrow> False)"

section \<open>Inputs of the scenarios\<close>

text \<open>
  The subject of the newsletter scenario, with the dash as its three bytes, and a message
  that carries it under the keys of both scripts.
\<close>

definition shein_subject :: string where
  "shein_subject =
     ''Exclusive Offer '' @ [CHR 0xE2, CHR 0x80, CHR 0x94] @ '' Don'' @ [CHR 0x27]
       @ ''t Miss This Sale!''"

definition shein_message :: email where
  "shein_message =
     \<lparr>id_email = ''m1'', threadId = None, from_header = ''newsletter@shein.com'',
      from_address = Some ''newsletter@shein.com'', from_name = Some ''SHEIN'',
      subject = shein_subject, snippet = ''Click here to unsubscribe'',
      bodyPreview = ''Click here to unsubscribe'', date = [], receivedDateTime = [],
      labelIds = [''INBOX''], isRead = False\<rparr>"

text \<open>An inbox of two messages of the same sender, one unread and one read.\<close>

definition sample_inbox :: "email list" where
  "sample_inbox = [shein_message, shein_message\<lparr>id_email := ''m2'', isRead := True\<rparr>]"

text \<open>
  A sender with the two messages of the inbox, listed in the marketing category with all
  its messages and in the old-unread category with the unread one.
\<close>

definition sample_stats :: sender_stats where
  "sample_stats =
     \<lparr>total_count = 2, unread = 1, read = 1, marketing_score = 12, emails = sample_inbox,
      name = ''newsletter@shein.com'', oldest = None, newest = None, read_rate = 1 / 2,
      is_promotional = False\<rparr>"

definition sample_categories :: categories where
  "sample_categories =
     [(''marketing'',
         \<lparr>senders = [(''newsletter@shein.com'', sample_stats)], email_count = 2\<rparr>),
      (''old_unread'',
         \<lparr>senders = [(''newsletter@shein.com'', old_stats sample_stats [shein_message])],
          email_count = 1\<rparr>)]"

text \<open>Two senders that never opened a message: six messages, and three.\<close>

definition six_unread :: sender_stats where
  "six_unread =
     \<lparr>total_count = 6, unread = 6, read = 0, marketing_score = 12,
      emails = replicate 6 shein_message, name = ''SHEIN'', oldest = None, newest = None,
      read_rate = 0, is_promotional = False\<rparr>"

definition three_unread :: sender_stats where
  "three_unread =
     \<lparr>total_count = 3, unread = 3, read = 0, marketing_score = 12,
      emails = replicate 3 shein_message, name = ''SHEIN'', oldest = None, newest = None,
      read_rate = 0, is_promotional = False\<rparr>"

definition unread_senders :: stats_dict where
  "unread_senders = [(''six@shein.com'', six_unread), (''three@shein.com'', three_unread)]"

text \<open>
  Date parsers that know one date each, a clock forty days after it, and a sender with a
  message of that date and a message whose date no format parses.
\<close>

definition toy_strptime :: strptime_fun where
  "toy_strptime s fmt =
     (if s = ''Mon, 01 Jan 2024 10:00:00 +0000'' \<and> fmt = ''%a, %d %b %Y %H:%M:%S %z''
      then Some \<lparr>wall_clock = 0, utcoffset = Some 0\<rparr> else None)"

definition toy_fromisoformat :: fromisoformat_fun where
  "toy_fromisoformat s =
     (if s = ''2024-01-01T10:00:00+00:00''
      then Some \<lparr>wall_clock = 0, utcoffset = Some 0\<rparr> else None)"

definition toy_now :: int where
  "toy_now = 40 * 86400 * 1000000"

definition dated_message :: email where
  "dated_message =
     shein_message\<lparr>id_email := ''m3'', date := ''Mon, 01 Jan 2024 10:00:00 +0000 (UTC)'',
                    receivedDateTime := ''2024-01-01T10:00:00Z''\<rparr>"

definition undated_message :: email where
  "undated_message =
     shein_message\<lparr>id_email := ''m4'', date := ''last Monday'',
                    receivedDateTime := ''last Monday''\<rparr>"

definition dated_stats :: sender_stats where
  "dated_stats =
     \<lparr>total_count = 2, unread = 2, read = 0, marketing_score = 12,
      emails = [undated_message, dated_message], name = ''SHEIN'',
      oldest = Some ''Mon, 01 Jan 2024 10:00:00 +0000 (UTC)'',
      newest = Some ''last Monday'', read_rate = 0, is_promotional = False\<rparr>"

definition dated_senders :: stats_dict where
  "dated_senders = [(''newsletter@shein.com'', dated_stats)]"

text \<open>Five displayed senders, by name.\<close>

definition five_senders :: "string list" where
  "five_senders = [''s1'', ''s2'', ''s3'', ''s4'', ''s5'']"

text \<open>
  Three messages to delete, and a provider that raises at the second request and returns
  for the others.
\<close>

definition three_messages :: "email list" where
  "three_messages = [shein_message, shein_message\<lparr>id_email := ''m2''\<rparr>,
                     shein_message\<lparr>id_email := ''m3''\<rparr>]"

definition middle_fails :: provider where
  "middle_fails i req = (if i = 1 then Raised else Returned 201)"

text \<open>
  The newsletter again, from a header with a display name and capital letters in the
  address.
\<close>

definition shein_named_message :: email where
  "shein_named_message =
     shein_message\<lparr>id_email := ''m5'', from_header := ''\"SHEIN\" <Newsletter@SHEIN.com>'',
                    from_address := Some ''Newsletter@SHEIN.com''\<rparr>"

section \<open>Properties of the batch mutation executor\<close>

lemma report_and_pace_counts [simp]:
  "success (report_and_pace i n s) = success s"
  "failed (report_and_pace i n s) = failed s"
  "issued (report_and_pace i n s) = issued s"
  by (simp_all add: report_and_pace_def Let_def)

lemma gmail_delete_loop_counts:
  "success (gmail_delete_loop service to_trash n i es s)
     + failed (gmail_delete_loop service to_trash n i es s)
   = success s + failed s + int (length es)"
  by (induction es arbitrary: i s) (simp_all add: Let_def split: reply.split)

lemma gmail_delete_loop_issued:
  "issued (gmail_delete_loop service to_trash n i es s)
   = issued s @ map (mutation_request to_trash) es"
  by (induction es arbitrary: i s) (simp_all add: Let_def split: reply.split)

lemma outlook_delete_loop_counts:
  "success (outlook_delete_loop service to_trash n i es s)
     + failed (outlook_delete_loop service to_trash n i es s)
   = success s + failed s + int (length es)"
  by (induction es arbitrary: i s) (simp_all add: Let_def split: reply.split)

lemma outlook_delete_loop_issued:
  "issued (outlook_delete_loop service to_trash n i es s)
   = issued s @ map (mutation_request to_trash) es"
  by (induction es arbitrary: i s) (simp_all add: Let_def split: reply.split)

lemma replies_from_Cons:
  "replies_from service to_trash i (e # es)
   = service i (mutation_request to_trash e) # replies_from service to_trash (i + 1) es"
  by (simp add: replies_from_def)

lemma gmail_delete_loop_success:
  "success (gmail_delete_loop service to_trash n i es s)
   = success s + int (length (filter (\<lambda>r. r \<noteq> Raised) (replies_from service to_trash i es)))"
proof (induction es arbitrary: i s)
  case Nil
  then show ?case by (simp add: replies_from_def)
next
  case (Cons e es)
  show ?case
    by (cases "service i (mutation_request to_trash e)")
       (simp_all add: Cons.IH replies_from_Cons Let_def)
qed

lemma gmail_delete_loop_failed:
  "failed (gmail_delete_loop service to_trash n i es s)
   = failed s + int (length (filter (\<lambda>r. r = Raised) (replies_from service to_trash i es)))"
proof (induction es arbitrary: i s)
  case Nil
  then show ?case by (simp add: replies_from_def)
next
  case (Cons e es)
  show ?case
    by (cases "service i (mutation_request to_trash e)")
       (simp_all add: Cons.IH replies_from_Cons Let_def)
qed

lemma outlook_delete_loop_success:
  "success (outlook_delete_loop service to_trash n i es s)
   = success s + int (length (filter (outlook_ok to_trash) (replies_from service to_trash i es)))"
proof (induction es arbitrary: i s)
  case Nil
  then show ?case by (simp add: replies_from_def)
next
  case (Cons e es)
  show ?case
    by (cases "service i (mutation_request to_trash e)")
       (simp_all add: Cons.IH replies_from_Cons Let_def outlook_ok_def)
qed

lemma outlook_delete_loop_failed:
  "failed (outlook_delete_loop service to_trash n i es s)
   = failed s
     + int (length (filter (\<lambda>r. \<not> outlook_ok to_trash r) (replies_from service to_trash i es)))"
proof (induction es arbitrary: i s)
  case Nil
  then show ?case by (simp add: replies_from_def)
next
  case (Cons e es)
  show ?case
    by (cases "service i (mutation_request to_trash e)")
       (simp_all add: Cons.IH replies_from_Cons Let_def outlook_ok_def)
qed

lemma length_replies_from [simp]: "length (replies_from service to_trash i es) = length es"
  by (simp add: replies_from_def)

text \<open>
  C1. For every input sequence and every pattern of replies, at any positions: the Gmail
  executor returns the number of requests that returned as its successes and the number
  of requests that raised as its failures; the Outlook executor returns the number of
  requests that returned the expected status as its successes and the number of all other
  requests, those with another status and those that raised, as its failures. Each raise
  is one failure. In both, the two counts add up to the number of messages, every call
  returns its pair (no exception leaves the loop), and the requests issued are one per
  message in input order, so the loop goes on after a failure to the end.
\<close>

theorem delete_emails_batch_total:
  "gmail_delete_emails_batch service es to_trash
     = (int (length (filter (\<lambda>r. r \<noteq> Raised) (replies_from service to_trash 0 es))),
        int (length (filter (\<lambda>r. r = Raised) (replies_from service to_trash 0 es))))
   \<and> fst (gmail_delete_emails_batch service es to_trash)
       + snd (gmail_delete_emails_batch service es to_trash) = int (length es)
   \<and> issued (gmail_delete_run service es to_trash) = map (mutation_request to_trash) es
   \<and> outlook_delete_emails_batch service es to_trash
     = (int (length (filter (outlook_ok to_trash) (replies_from service to_trash 0 es))),
        int (length (filter (\<lambda>r. \<not> outlook_ok to_trash r)
                       (replies_from service to_trash 0 es))))
   \<and> fst (outlook_delete_emails_batch service es to_trash)
       + snd (outlook_delete_emails_batch service es to_trash) = int (length es)
   \<and> issued (outlook_delete_run service es to_trash) = map (mutation_request to_trash) es"
proof -
  have g: "gmail_delete_emails_batch service es to_trash
     = (int (length (filter (\<lambda>r. r \<noteq> Raised) (replies_from service to_trash 0 es))),
        int (length (filter (\<lambda>r. r = Raised) (replies_from service to_trash 0 es))))"
    by (simp add: gmail_delete_emails_batch_def gmail_delete_run_def Let_def batch_init_def
          gmail_delete_loop_success gmail_delete_loop_failed)
  have out: "outlook_delete_emails_batch service es to_trash
     = (int (length (filter (outlook_ok to_trash) (replies_from service to_trash 0 es))),
        int (length (filter (\<lambda>r. \<not> outlook_ok to_trash r)
                       (replies_from service to_trash 0 es))))"
    by (simp add: outlook_delete_emails_batch_def outlook_delete_run_def Let_def batch_init_def
          outlook_delete_loop_success outlook_delete_loop_failed)
  have gs: "fst (gmail_delete_emails_batch service es to_trash)
       + snd (gmail_delete_emails_batch service es to_trash) = int (length es)"
    using gmail_delete_loop_counts [of service to_trash "length es" 0 es batch_init]
    by (simp add: gmail_delete_emails_batch_def gmail_delete_run_def Let_def batch_init_def)
  have os: "fst (outlook_delete_emails_batch service es to_trash)
       + snd (outlook_delete_emails_batch service es to_trash) = int (length es)"
    using outlook_delete_loop_counts [of service to_trash "length es" 0 es batch_init]
    by (simp add: outlook_delete_emails_batch_def outlook_delete_run_def Let_def batch_init_def)
  have gi: "issued (gmail_delete_run service es to_trash) = map (mutation_request to_trash) es"
    by (simp add: gmail_delete_run_def gmail_delete_loop_issued batch_init_def)
  have oi: "issued (outlook_delete_run service es to_trash) = map (mutation_request to_trash) es"
    by (simp add: outlook_delete_run_def outlook_delete_loop_issued batch_init_def)
  show ?thesis
    by (intro conjI) (rule g gs gi out os oi)+
qed

lemma middle_fails_replies:
  "replies_from middle_fails True 0 three_messages = [Returned 201, Raised, Returned 201]"
  "replies_from (\<lambda>i req. Returned 404) True 0 three_messages
   = [Returned 404, Returned 404, Returned 404]"
  by (simp_all add: replies_from_def three_messages_def middle_fails_def)

theorem delete_emails_batch_total_witness:
  "gmail_delete_emails_batch middle_fails three_messages True = (2, 1)
   \<and> outlook_delete_emails_batch middle_fails three_messages True = (2, 1)
   \<and> outlook_delete_emails_batch (\<lambda>i req. Returned 404) three_messages True = (0, 3)
   \<and> issued (gmail_delete_run middle_fails three_messages True)
       = [trash_request ''m1'', trash_request ''m2'', trash_request ''m3'']"
  using delete_emails_batch_total [of middle_fails three_messages True]
    delete_emails_batch_total [of "\<lambda>i req. Returned 404" three_messages True]
  by (simp add: middle_fails_replies outlook_ok_def)
     (simp add: three_messages_def mutation_request_def shein_message_def)

section \<open>Properties of the sender normalizer\<close>

text \<open>
  C2, as the code has it. A header with no match of the angle-bracket pattern and no
  \<^verbatim>\<open>@\<close> gives \<^verbatim>\<open>unknown\<close> twice only when it is empty; a header that is not empty comes
  back unchanged as both the address and the name. The function is total: every
  operation it uses is defined on every string.
\<close>

theorem parse_sender_unparsable:
  "search_angle header = None \<Longrightarrow> CHR ''@'' \<notin> set header \<Longrightarrow>
   parse_sender header = (if header = [] then (''unknown'', ''unknown'') else (header, header))"
  by (simp add: parse_sender_def)

theorem parse_sender_unparsable_witness:
  "parse_sender ''John Smith'' = (''John Smith'', ''John Smith'')"
  using parse_sender_unparsable [of "''John Smith''"] by (simp add: group_at_def)

text \<open>
  The claim as stated fails at the header \<^verbatim>\<open>John Smith\<close>: no angle brackets, no
  \<^verbatim>\<open>@\<close>, and the result is not \<^verbatim>\<open>unknown\<close>.
\<close>

theorem parse_sender_unknown_counterexample:
  "search_angle ''John Smith'' = None \<and> CHR ''@'' \<notin> set ''John Smith''
   \<and> parse_sender ''John Smith'' \<noteq> (''unknown'', ''unknown'')"
  by (simp add: parse_sender_def group_at_def)

section \<open>Properties of the marketing classifier\<close>

lemma contains_sublist: "contains needle hay \<longleftrightarrow> sublist needle hay"
  by (induction hay) (auto simp: sublist_Cons_right)

lemma contains_append_left: "contains k a \<Longrightarrow> contains k (a @ b)"
  by (auto simp: contains_sublist sublist_append)

lemma contains_append_right: "contains k b \<Longrightarrow> contains k (a @ b)"
  by (auto simp: contains_sublist sublist_append)

lemma contains_lower: "contains k s \<Longrightarrow> contains (lower k) (lower s)"
  by (simp add: contains_sublist lower_def map_mono_sublist)

lemma lower_unsubscribe: "lower ''unsubscribe'' = ''unsubscribe''"
  by (simp add: lower_def lower_char_def)

lemma count_matches_ge:
  assumes "distinct ys" "set ys \<subseteq> set xs" "\<forall>y\<in>set ys. P y"
  shows "length ys \<le> length (filter P xs)"
proof -
  have "set ys \<subseteq> set (filter P xs)" using assms by auto
  then have "card (set ys) \<le> card (set (filter P xs))" by (simp add: card_mono)
  also have "\<dots> \<le> length (filter P xs)" by (rule card_length)
  finally show ?thesis using assms(1) by (simp add: distinct_card)
qed

lemma find_Some_ex: "x \<in> set xs \<Longrightarrow> P x \<Longrightarrow> \<exists>y. find P xs = Some y"
  by (cases "find P xs") (auto simp: find_None_iff)

lemma lower_subject: "lower shein_subject = ''exclusive offer '' @ [CHR 0xE2, CHR 0x80, CHR 0x94] @ '' don'' @ [CHR 0x27] @ ''t miss this sale!''"
  by (simp add: shein_subject_def lower_def lower_char_def)

lemma parse_shein: "parse_sender ''newsletter@shein.com'' = (''newsletter@shein.com'', ''newsletter@shein.com'')"
  by (simp add: parse_sender_def group_at_def lower_def lower_char_def strip_def strip_chars_def isspace_def)

lemma heuristic_shein:
  assumes unsub: "contains ''unsubscribe'' text"
    and subj: "text = lower shein_subject @ '' '' @ rest"
    and dom: "''shein.com'' \<in> set domains"
  shows "fst (heuristic_score domains ''newsletter@shein.com'' nm text) = 12"
proof -
  obtain p where p: "find (\<lambda>p. contains p ''newsletter@shein.com'' \<or> contains p nm) MARKETING_SENDER_PATTERNS = Some p"
    using find_Some_ex [of "''newsletter''" MARKETING_SENDER_PATTERNS "\<lambda>p. contains p ''newsletter@shein.com'' \<or> contains p nm"]
    by (auto simp: MARKETING_SENDER_PATTERNS_def)
  have "contains ''shein.com'' ''newsletter@shein.com''" by simp
  then obtain d where d: "find (\<lambda>d. contains d ''newsletter@shein.com'') domains = Some d"
    using find_Some_ex [of "''shein.com''" domains "\<lambda>d. contains d ''newsletter@shein.com''"] dom
    by blast
  have k1: "contains (''don'' @ [CHR 0x27] @ ''t miss'') text"
    unfolding subj lower_subject by (rule contains_append_left) simp
  have k2: "contains ''exclusive offer'' text"
    unfolding subj lower_subject by (rule contains_append_left) simp
  have k3: "contains ''sale'' text"
    unfolding subj lower_subject by (rule contains_append_left) simp
  have "length [''unsubscribe'', ''don'' @ [CHR 0x27] @ ''t miss'', ''exclusive offer'', ''sale'']
          \<le> length (filter (\<lambda>k. contains k text) MARKETING_KEYWORDS)"
    by (rule count_matches_ge) (use unsub k1 k2 k3 in \<open>auto simp: MARKETING_KEYWORDS_def\<close>)
  then have kw: "3 \<le> int (length (filter (\<lambda>k. contains k text) MARKETING_KEYWORDS))"
    by simp
  show ?thesis
    using p d kw unsub by (simp add: heuristic_score_def Let_def)
qed

lemma parse_named:
  "parse_sender ''\"SHEIN\" <Newsletter@SHEIN.com>'' = (''newsletter@shein.com'', ''SHEIN'')"
  by (simp add: parse_sender_def group_at_def lower_def lower_char_def strip_def strip_chars_def
        isspace_def replace_def)

lemma lower_named: "lower ''Newsletter@SHEIN.com'' = ''newsletter@shein.com''"
  by (simp add: lower_def lower_char_def)

text \<open>
  C8. A message whose sender address, as each script normalizes it, is
  \<^verbatim>\<open>newsletter@shein.com\<close>, with the subject of the scenario, a snippet (for Outlook, a
  body preview) that contains \<^verbatim>\<open>unsubscribe\<close> and no category label of the provider is
  classified as marketing with a score of at least 10, by both scripts, whatever the
  display name is and whatever else the snippet says.
\<close>

theorem shein_newsletter_is_marketing:
  "(fst (parse_sender (from_header e)) = ''newsletter@shein.com'' \<and> subject e = shein_subject
      \<and> contains ''unsubscribe'' (snippet e)
      \<and> ''CATEGORY_PROMOTIONS'' \<notin> set (labelIds e) \<and> ''CATEGORY_SOCIAL'' \<notin> set (labelIds e)
    \<longrightarrow> (case gmail_is_marketing_email e of
           (is_marketing, score, reasons) \<Rightarrow> is_marketing \<and> 10 \<le> score))
   \<and> (fst (outlook_sender e) = ''newsletter@shein.com'' \<and> subject e = shein_subject
      \<and> contains ''unsubscribe'' (bodyPreview e)
    \<longrightarrow> (case outlook_is_marketing_email e of
           (is_marketing, score, reasons) \<Rightarrow> is_marketing \<and> 10 \<le> score))"
proof (intro conjI impI)
  assume a: "fst (parse_sender (from_header e)) = ''newsletter@shein.com''
      \<and> subject e = shein_subject \<and> contains ''unsubscribe'' (snippet e)
      \<and> ''CATEGORY_PROMOTIONS'' \<notin> set (labelIds e) \<and> ''CATEGORY_SOCIAL'' \<notin> set (labelIds e)"
  let ?text = "lower (subject e) @ '' '' @ lower (snippet e)"
  obtain nm where p: "parse_sender (from_header e) = (''newsletter@shein.com'', nm)"
    using a by (metis prod.collapse)
  have "contains ''unsubscribe'' (lower (snippet e))"
    using a contains_lower [of "''unsubscribe''" "snippet e"] by (simp add: lower_unsubscribe)
  then have u: "contains ''unsubscribe'' ?text"
    by (intro contains_append_right)
  have "fst (heuristic_score GMAIL_KNOWN_MARKETING_DOMAINS ''newsletter@shein.com''
               (lower nm) ?text) = 12"
    by (rule heuristic_shein [OF u])
       (use a in \<open>simp_all add: GMAIL_KNOWN_MARKETING_DOMAINS_def
                    OUTLOOK_KNOWN_MARKETING_DOMAINS_def\<close>)
  then obtain rs where "heuristic_score GMAIL_KNOWN_MARKETING_DOMAINS ''newsletter@shein.com''
               (lower nm) ?text = (12, rs)"
    by (metis prod.collapse)
  then show "case gmail_is_marketing_email e of
           (is_marketing, score, reasons) \<Rightarrow> is_marketing \<and> 10 \<le> score"
    using a by (simp add: gmail_is_marketing_email_def p Let_def split: prod.split)
next
  assume a: "fst (outlook_sender e) = ''newsletter@shein.com'' \<and> subject e = shein_subject
      \<and> contains ''unsubscribe'' (bodyPreview e)"
  let ?text = "lower (subject e) @ '' '' @ lower (bodyPreview e)"
  have "lower ''unknown'' \<noteq> ''newsletter@shein.com''"
    by (simp add: lower_def lower_char_def)
  then have addr: "lower (case from_address e of None \<Rightarrow> [] | Some a \<Rightarrow> a)
                   = ''newsletter@shein.com''"
    using a by (cases "from_address e") (simp_all add: outlook_sender_def Let_def)
  have "contains ''unsubscribe'' (lower (bodyPreview e))"
    using a contains_lower [of "''unsubscribe''" "bodyPreview e"] by (simp add: lower_unsubscribe)
  then have u: "contains ''unsubscribe'' ?text"
    by (intro contains_append_right)
  have "fst (heuristic_score OUTLOOK_KNOWN_MARKETING_DOMAINS ''newsletter@shein.com''
               (lower (case from_name e of None \<Rightarrow> [] | Some n \<Rightarrow> n)) ?text) = 12"
    by (rule heuristic_shein [OF u])
       (use a in \<open>simp_all add: OUTLOOK_KNOWN_MARKETING_DOMAINS_def\<close>)
  then obtain rs where "heuristic_score OUTLOOK_KNOWN_MARKETING_DOMAINS ''newsletter@shein.com''
               (lower (case from_name e of None \<Rightarrow> [] | Some n \<Rightarrow> n)) ?text = (12, rs)"
    by (metis prod.collapse)
  then show "case outlook_is_marketing_email e of
           (is_marketing, score, reasons) \<Rightarrow> is_marketing \<and> 10 \<le> score"
    using a by (simp add: outlook_is_marketing_email_def addr Let_def split: prod.split)
qed

theorem shein_newsletter_is_marketing_witness:
  "(case gmail_is_marketing_email shein_message of
      (is_marketing, score, reasons) \<Rightarrow> is_marketing \<and> 10 \<le> score)
   \<and> (case outlook_is_marketing_email shein_message of
      (is_marketing, score, reasons) \<Rightarrow> is_marketing \<and> 10 \<le> score)
   \<and> (case gmail_is_marketing_email shein_named_message of
      (is_marketing, score, reasons) \<Rightarrow> is_marketing \<and> 10 \<le> score)
   \<and> (case outlook_is_marketing_email shein_named_message of
      (is_marketing, score, reasons) \<Rightarrow> is_marketing \<and> 10 \<le> score)"
  using shein_newsletter_is_marketing [of shein_message]
    shein_newsletter_is_marketing [of shein_named_message]
  by (simp add: shein_message_def shein_named_message_def parse_shein parse_named
        outlook_sender_def lower_named Let_def)
     (simp add: lower_def lower_char_def)

section \<open>Properties of the sender aggregator\<close>

lemma track_dates_fields [simp]:
  "total_count (track_dates d st) = total_count st"
  "read (track_dates d st) = read st"
  "unread (track_dates d st) = unread st"
  "emails (track_dates d st) = emails st"
  "marketing_score (track_dates d st) = marketing_score st"
  "is_promotional (track_dates d st) = is_promotional st"
  "read_rate (track_dates d st) = read_rate st"
  "name (track_dates d st) = name st"
  by (simp_all add: track_dates_def Let_def)

lemma count_read_fields [simp]:
  "total_count (count_read b st) = total_count st"
  "read (count_read b st) = (if b then read st + 1 else read st)"
  "unread (count_read b st) = (if b then unread st else unread st + 1)"
  "emails (count_read b st) = emails st"
  by (simp_all add: count_read_def)

lemma default_stats_ok: "stats_ok default_stats"
  by (simp add: stats_ok_def default_stats_def)

lemma gmail_record_email_counts:
  "total_count (gmail_record_email e st) = total_count st + 1"
  "read (gmail_record_email e st) = (if isRead e then read st + 1 else read st)"
  "unread (gmail_record_email e st) = (if isRead e then unread st else unread st + 1)"
  "emails (gmail_record_email e st) = emails st @ [e]"
  by (simp_all add: gmail_record_email_def Let_def split: prod.split)

lemma outlook_record_email_counts:
  "total_count (outlook_record_email e st) = total_count st + 1"
  "read (outlook_record_email e st) = (if isRead e then read st + 1 else read st)"
  "unread (outlook_record_email e st) = (if isRead e then unread st else unread st + 1)"
  "emails (outlook_record_email e st) = emails st @ [e]"
  by (simp_all add: outlook_record_email_def Let_def split: prod.split)

lemma gmail_record_email_ok: "stats_ok st \<Longrightarrow> stats_ok (gmail_record_email e st)"
  by (simp add: stats_ok_def gmail_record_email_counts)

lemma outlook_record_email_ok: "stats_ok st \<Longrightarrow> stats_ok (outlook_record_email e st)"
  by (simp add: stats_ok_def outlook_record_email_counts)

lemma upsert_all:
  assumes "\<forall>(a, st)\<in>set d. P st" "P default_stats" "\<And>st. P st \<Longrightarrow> P (f st)"
  shows "\<forall>(a, st)\<in>set (upsert k f d). P st"
  using assms(1) by (induction d) (auto simp: assms(2,3) split: if_splits)

lemma upsert_keys: "set (map fst (upsert k f d)) = insert k (set (map fst d))"
proof (induction d)
  case Nil
  then show ?case by simp
next
  case (Cons p d)
  obtain k' v where p: "p = (k', v)" by (cases p)
  show ?case
  proof (cases "k = k'")
    case True
    then show ?thesis by (auto simp: p)
  next
    case False
    then show ?thesis using Cons.IH by (auto simp: p)
  qed
qed

lemma upsert_distinct: "distinct (map fst d) \<Longrightarrow> distinct (map fst (upsert k f d))"
proof (induction d)
  case Nil
  then show ?case by simp
next
  case (Cons p d)
  obtain k' v where p: "p = (k', v)" by (cases p)
  from Cons show ?case
    using upsert_keys [of k f d] by (auto simp: p)
qed

lemma upsert_sum:
  assumes "g default_stats = 0" "\<And>st. g (f st) = g st + c"
  shows "sum_list (map (\<lambda>(a, st). g st) (upsert k f d)) = sum_list (map (\<lambda>(a, st). g st) d) + (c::int)"
  by (induction d) (auto simp: assms)

lemma gmail_aggregate_ok:
  "\<forall>(a, st)\<in>set d. stats_ok st \<Longrightarrow> \<forall>(a, st)\<in>set (gmail_aggregate es d). stats_ok st"
proof (induction es arbitrary: d)
  case Nil
  then show ?case by simp
next
  case (Cons e es)
  have "\<forall>(a, st)\<in>set (upsert (fst (parse_sender (from_header e))) (gmail_record_email e) d). stats_ok st"
    using Cons.prems by (rule upsert_all) (simp_all add: default_stats_ok gmail_record_email_ok)
  then show ?case using Cons.IH by simp
qed

lemma outlook_aggregate_ok:
  "\<forall>(a, st)\<in>set d. stats_ok st \<Longrightarrow> \<forall>(a, st)\<in>set (outlook_aggregate es d). stats_ok st"
proof (induction es arbitrary: d)
  case Nil
  then show ?case by simp
next
  case (Cons e es)
  have "\<forall>(a, st)\<in>set (upsert (fst (outlook_sender e)) (outlook_record_email e) d). stats_ok st"
    using Cons.prems by (rule upsert_all) (simp_all add: default_stats_ok outlook_record_email_ok)
  then show ?case using Cons.IH by simp
qed

lemma gmail_aggregate_distinct:
  "distinct (map fst d) \<Longrightarrow> distinct (map fst (gmail_aggregate es d))"
  by (induction es arbitrary: d) (simp_all add: upsert_distinct)

lemma outlook_aggregate_distinct:
  "distinct (map fst d) \<Longrightarrow> distinct (map fst (outlook_aggregate es d))"
  by (induction es arbitrary: d) (simp_all add: upsert_distinct)

lemma gmail_aggregate_total:
  "sum_list (map (\<lambda>(a, st). total_count st) (gmail_aggregate es d))
   = sum_list (map (\<lambda>(a, st). total_count st) d) + int (length es)"
proof (induction es arbitrary: d)
  case Nil
  then show ?case by simp
next
  case (Cons e es)
  have "sum_list (map (\<lambda>(a, st). total_count st)
          (upsert (fst (parse_sender (from_header e))) (gmail_record_email e) d))
        = sum_list (map (\<lambda>(a, st). total_count st) d) + 1"
    by (rule upsert_sum) (simp_all add: default_stats_def gmail_record_email_counts)
  then show ?case using Cons.IH by simp
qed

lemma outlook_aggregate_total:
  "sum_list (map (\<lambda>(a, st). total_count st) (outlook_aggregate es d))
   = sum_list (map (\<lambda>(a, st). total_count st) d) + int (length es)"
proof (induction es arbitrary: d)
  case Nil
  then show ?case by simp
next
  case (Cons e es)
  have "sum_list (map (\<lambda>(a, st). total_count st)
          (upsert (fst (outlook_sender e)) (outlook_record_email e) d))
        = sum_list (map (\<lambda>(a, st). total_count st) d) + 1"
    by (rule upsert_sum) (simp_all add: default_stats_def outlook_record_email_counts)
  then show ?case using Cons.IH by simp
qed

lemma calc_read_rates_eq: "calc_read_rates d = Inr (map (\<lambda>(a, st). (a, finalized st)) d)"
  by (induction d) (auto simp: finalized_def truediv_def)

lemma finalized_fields [simp]:
  "total_count (finalized st) = total_count st"
  "read (finalized st) = read st"
  "unread (finalized st) = unread st"
  "emails (finalized st) = emails st"
  "marketing_score (finalized st) = marketing_score st"
  "is_promotional (finalized st) = is_promotional st"
  by (simp_all add: finalized_def)

lemma finalized_ok: "stats_ok (finalized st) = stats_ok st"
  by (simp add: stats_ok_def)

lemma stats_ok_sum:
  "\<forall>(a, st)\<in>set d. stats_ok st \<Longrightarrow>
   sum_list (map (\<lambda>(a, st). read st) d) + sum_list (map (\<lambda>(a, st). unread st) d)
   = sum_list (map (\<lambda>(a, st). total_count st) d)"
  by (induction d) (auto simp: stats_ok_def)

lemma count_read_rate [simp]: "read_rate (count_read b st) = read_rate st"
  by (simp add: count_read_def)

lemma record_email_rate:
  "read_rate (gmail_record_email e st) = read_rate st"
  "read_rate (outlook_record_email e st) = read_rate st"
  by (simp_all add: gmail_record_email_def outlook_record_email_def Let_def split: prod.split)

lemma gmail_aggregate_rate:
  "\<forall>(a, st)\<in>set d. read_rate st = 0 \<Longrightarrow> \<forall>(a, st)\<in>set (gmail_aggregate es d). read_rate st = 0"
proof (induction es arbitrary: d)
  case Nil
  then show ?case by simp
next
  case (Cons e es)
  have "\<forall>(a, st)\<in>set (upsert (fst (parse_sender (from_header e))) (gmail_record_email e) d).
          read_rate st = 0"
    using Cons.prems by (rule upsert_all) (simp_all add: default_stats_def record_email_rate)
  then show ?case using Cons.IH by simp
qed

lemma outlook_aggregate_rate:
  "\<forall>(a, st)\<in>set d. read_rate st = 0 \<Longrightarrow> \<forall>(a, st)\<in>set (outlook_aggregate es d). read_rate st = 0"
proof (induction es arbitrary: d)
  case Nil
  then show ?case by simp
next
  case (Cons e es)
  have "\<forall>(a, st)\<in>set (upsert (fst (outlook_sender e)) (outlook_record_email e) d).
          read_rate st = 0"
    using Cons.prems by (rule upsert_all) (simp_all add: default_stats_def record_email_rate)
  then show ?case using Cons.IH by simp
qed

lemma finalized_rate_bounds:
  assumes "stats_ok st" "read_rate st = 0"
  shows "0 \<le> read_rate (finalized st) \<and> read_rate (finalized st) \<le> 1"
proof (cases "total_count st > 0")
  case True
  have "read st \<le> total_count st" "0 \<le> read st"
    using assms(1) by (simp_all add: stats_ok_def)
  then show ?thesis using True by (simp add: finalized_def)
next
  case False
  then show ?thesis using assms(2) by (simp add: finalized_def)
qed

lemma analyze_emails_eq:
  "gmail_analyze_emails es = Inr (map (\<lambda>(a, st). (a, finalized st)) (gmail_aggregate es []))"
  "outlook_analyze_emails es = Inr (map (\<lambda>(a, st). (a, finalized st)) (outlook_aggregate es []))"
  by (simp_all add: gmail_analyze_emails_def outlook_analyze_emails_def calc_read_rates_eq)

lemma finalized_all:
  "\<forall>(a, st)\<in>set d. P (finalized st) \<Longrightarrow> \<forall>(a, st)\<in>set (map (\<lambda>(a, st). (a, finalized st)) d). P st"
  by auto

lemma finalized_sum:
  "(\<And>st. g (finalized st) = g st) \<Longrightarrow>
   sum_list (map (\<lambda>(a, st). g st) (map (\<lambda>(a, st). (a, finalized st)) d))
   = sum_list (map (\<lambda>(a, st). (g st :: int)) d)"
  by (induction d) auto

lemma counts_agreeI:
  assumes "\<forall>(a, st)\<in>set d. stats_ok st"
    and "sum_list (map (\<lambda>(a, st). total_count st) d) = int (length es)"
  shows "counts_agree es (map (\<lambda>(a, st). (a, finalized st)) d)"
proof -
  have ok: "\<forall>(a, st)\<in>set (map (\<lambda>(a, st). (a, finalized st)) d). stats_ok st"
    using assms(1) by (intro finalized_all) (simp add: finalized_ok)
  have "sum_list (map (\<lambda>(a, st). total_count st) (map (\<lambda>(a, st). (a, finalized st)) d))
        = int (length es)"
    using assms(2) finalized_sum [of total_count d] by simp
  then show ?thesis
    using ok stats_ok_sum [OF ok] unfolding counts_agree_def
    by (auto simp: stats_ok_def)
qed

text \<open>
  C6. For every input, both analyses return (no error), and in the result every sender's
  record has \<open>read + unread = total\<close> and \<open>total\<close> equal to the number of its
  messages; summed over the senders, read and unread add up to the totals, and the totals
  add up to the number of messages of the input.
\<close>

theorem analyze_emails_counts:
  "(\<exists>sender_stats. gmail_analyze_emails es = Inr sender_stats \<and> counts_agree es sender_stats)
   \<and> (\<exists>sender_stats. outlook_analyze_emails es = Inr sender_stats \<and> counts_agree es sender_stats)"
proof -
  have "counts_agree es (map (\<lambda>(a, st). (a, finalized st)) (gmail_aggregate es []))"
    using gmail_aggregate_ok [of "[]" es] gmail_aggregate_total [of es "[]"]
    by (intro counts_agreeI) simp_all
  moreover have "counts_agree es (map (\<lambda>(a, st). (a, finalized st)) (outlook_aggregate es []))"
    using outlook_aggregate_ok [of "[]" es] outlook_aggregate_total [of es "[]"]
    by (intro counts_agreeI) simp_all
  ultimately show ?thesis by (simp add: analyze_emails_eq)
qed

theorem analyze_emails_counts_witness:
  "(\<exists>sender_stats. gmail_analyze_emails sample_inbox = Inr sender_stats
      \<and> sum_list (map (\<lambda>(addr, st). total_count st) sender_stats) = 2
      \<and> counts_agree sample_inbox sender_stats)
   \<and> (\<exists>sender_stats. outlook_analyze_emails sample_inbox = Inr sender_stats
      \<and> sum_list (map (\<lambda>(addr, st). total_count st) sender_stats) = 2
      \<and> counts_agree sample_inbox sender_stats)"
proof -
  have l: "int (length sample_inbox) = 2" by (simp add: sample_inbox_def)
  show ?thesis
    using analyze_emails_counts [of sample_inbox] l unfolding counts_agree_def by auto
qed

text \<open>
  C9. For every input, both analyses return, and every record of the result has its read
  rate between 0 and 1. The loop that computes the rates returns for every dictionary (the
  division is never reached with a zero divisor), and a record whose total is 0 is left as
  it is, its rate included.
\<close>

theorem read_rate_in_unit_interval:
  "(\<exists>sender_stats. gmail_analyze_emails es = Inr sender_stats
      \<and> (\<forall>(addr, st)\<in>set sender_stats. 0 \<le> read_rate st \<and> read_rate st \<le> 1))
   \<and> (\<exists>sender_stats. outlook_analyze_emails es = Inr sender_stats
      \<and> (\<forall>(addr, st)\<in>set sender_stats. 0 \<le> read_rate st \<and> read_rate st \<le> 1))
   \<and> (\<exists>rated. calc_read_rates d = Inr rated)
   \<and> (total_count st0 = 0 \<longrightarrow> calc_read_rates [(addr0, st0)] = Inr [(addr0, st0)])"
proof -
  have g: "\<forall>(a, st)\<in>set (gmail_aggregate es []). 
             0 \<le> read_rate (finalized st) \<and> read_rate (finalized st) \<le> 1"
    using gmail_aggregate_ok [of "[]" es] gmail_aggregate_rate [of "[]" es]
    by (auto intro: finalized_rate_bounds [THEN conjunct1] finalized_rate_bounds [THEN conjunct2]) 
  have out: "\<forall>(a, st)\<in>set (outlook_aggregate es []). 
             0 \<le> read_rate (finalized st) \<and> read_rate (finalized st) \<le> 1"
    using outlook_aggregate_ok [of "[]" es] outlook_aggregate_rate [of "[]" es]
    by (auto intro: finalized_rate_bounds [THEN conjunct1] finalized_rate_bounds [THEN conjunct2]) 
  show ?thesis
    using finalized_all [OF g] finalized_all [OF out]
    by (simp add: analyze_emails_eq calc_read_rates_eq finalized_def)
qed

lemma upsert_not_empty: "upsert k f d \<noteq> []"
  by (cases d) (auto split: if_splits)

lemma gmail_aggregate_not_empty: "d \<noteq> [] \<Longrightarrow> gmail_aggregate es d \<noteq> []"
  by (induction es arbitrary: d) (simp_all add: upsert_not_empty)

lemma outlook_aggregate_not_empty: "d \<noteq> [] \<Longrightarrow> outlook_aggregate es d \<noteq> []"
  by (induction es arbitrary: d) (simp_all add: upsert_not_empty)

lemma sample_inbox_senders:
  "gmail_aggregate sample_inbox [] \<noteq> []" "outlook_aggregate sample_inbox [] \<noteq> []"
  by (simp_all add: sample_inbox_def gmail_aggregate_not_empty outlook_aggregate_not_empty
        upsert_not_empty)

theorem read_rate_in_unit_interval_witness:
  "(\<exists>sender_stats. gmail_analyze_emails sample_inbox = Inr sender_stats \<and> sender_stats \<noteq> []
      \<and> (\<forall>(addr, st)\<in>set sender_stats. 0 \<le> read_rate st \<and> read_rate st \<le> 1))
   \<and> (\<exists>sender_stats. outlook_analyze_emails sample_inbox = Inr sender_stats
      \<and> sender_stats \<noteq> []
      \<and> (\<forall>(addr, st)\<in>set sender_stats. 0 \<le> read_rate st \<and> read_rate st \<le> 1))
   \<and> calc_read_rates [(''nobody'', default_stats)] = Inr [(''nobody'', default_stats)]"
proof -
  have z: "total_count default_stats = 0" by (simp add: default_stats_def)
  show ?thesis
    using read_rate_in_unit_interval
            [of sample_inbox "[]" default_stats "''nobody''"] z sample_inbox_senders
    by (auto simp: analyze_emails_eq)
qed

lemma upsert_created:
  assumes "\<forall>(a, st)\<in>set d. P st" "P (f default_stats)" "\<And>st. P st \<Longrightarrow> P (f st)"
  shows "\<forall>(a, st)\<in>set (upsert k f d). P st"
  using assms(1) by (induction d) (auto simp: assms(2,3) split: if_splits)

lemma gmail_aggregate_positive:
  "\<forall>(a, st)\<in>set d. 0 < total_count st \<Longrightarrow>
   \<forall>(a, st)\<in>set (gmail_aggregate es d). 0 < total_count st"
proof (induction es arbitrary: d)
  case Nil
  then show ?case by simp
next
  case (Cons e es)
  have "\<forall>(a, st)\<in>set (upsert (fst (parse_sender (from_header e))) (gmail_record_email e) d).
          0 < total_count st"
    using Cons.prems
    by (rule upsert_created) (simp_all add: gmail_record_email_counts default_stats_def)
  then show ?case using Cons.IH by simp
qed

lemma outlook_aggregate_positive:
  "\<forall>(a, st)\<in>set d. 0 < total_count st \<Longrightarrow>
   \<forall>(a, st)\<in>set (outlook_aggregate es d). 0 < total_count st"
proof (induction es arbitrary: d)
  case Nil
  then show ?case by simp
next
  case (Cons e es)
  have "\<forall>(a, st)\<in>set (upsert (fst (outlook_sender e)) (outlook_record_email e) d).
          0 < total_count st"
    using Cons.prems
    by (rule upsert_created) (simp_all add: outlook_record_email_counts default_stats_def)
  then show ?case using Cons.IH by simp
qed

text \<open>
  Every record of an analysis has a positive total, and its read rate is the quotient of
  its read count and its total.
\<close>

lemma analyze_emails_rates:
  assumes "gmail_analyze_emails es = Inr sender_stats \<or> outlook_analyze_emails es = Inr sender_stats"
    and "(addr, st) \<in> set sender_stats"
  shows "0 < total_count st \<and> read_rate st = of_int (read st) / of_int (total_count st)"
proof -
  have "\<exists>st0. st = finalized st0 \<and> 0 < total_count st0"
    using assms gmail_aggregate_positive [of "[]" es] outlook_aggregate_positive [of "[]" es]
    by (fastforce simp: analyze_emails_eq)
  then show ?thesis by (auto simp: finalized_def)
qed

section \<open>Properties of the selection resolver\<close>

lemma add_emails_firsts:
  "add_emails es (seen, kept) = (seen \<union> id_email ` set es, kept @ firsts seen es)"
  by (induction es arbitrary: seen kept) (auto simp: insert_absorb)

lemma firsts_append:
  "firsts seen (xs @ ys) = firsts seen xs @ firsts (seen \<union> id_email ` set xs) ys"
  by (induction xs arbitrary: seen) (auto simp: insert_absorb)

lemma add_members_firsts:
  "add_members ms (seen, kept)
   = (seen \<union> id_email ` set (concat (map (\<lambda>m. emails (snd m)) ms)),
      kept @ firsts seen (concat (map (\<lambda>m. emails (snd m)) ms)))"
proof (induction ms arbitrary: seen kept)
  case Nil
  then show ?case by simp
next
  case (Cons m ms)
  obtain addr st where m: "m = (addr, st)" by (cases m)
  show ?case
    by (simp add: m add_emails_firsts Cons.IH firsts_append Un_assoc image_Un)
qed

lemma add_categories_firsts:
  "add_categories cs (seen, kept)
   = (seen \<union> id_email ` set (concat (map (\<lambda>cat. concat (map (\<lambda>m. emails (snd m)) (senders cat))) cs)),
      kept @ firsts seen (concat (map (\<lambda>cat. concat (map (\<lambda>m. emails (snd m)) (senders cat))) cs)))"
proof (induction cs arbitrary: seen kept)
  case Nil
  then show ?case by simp
next
  case (Cons c cs)
  show ?case
    by (simp add: add_members_firsts Cons.IH firsts_append Un_assoc image_Un)
qed

lemma auto_clean_firsts: "auto_clean_emails cats = firsts {} (encounter_order cats)"
  by (simp add: auto_clean_emails_def encounter_order_def add_categories_firsts)

lemma firsts_ids: "id_email ` set (firsts seen es) = id_email ` set es - seen"
  by (induction es arbitrary: seen) auto

lemma firsts_distinct: "distinct (map id_email (firsts seen es))"
proof (induction es arbitrary: seen)
  case Nil
  then show ?case by simp
next
  case (Cons e es)
  show ?case
    using Cons.IH firsts_ids [of "insert (id_email e) seen" es] by auto
qed

lemma firsts_unchanged:
  "distinct (map id_email es) \<Longrightarrow> seen \<inter> id_email ` set es = {} \<Longrightarrow> firsts seen es = es"
  by (induction es arbitrary: seen) auto

lemma firsts_positions:
  "firsts seen es
   = map (\<lambda>i. es ! i)
       (filter (\<lambda>i. id_email (es ! i) \<notin> seen \<union> id_email ` set (take i es)) [0..<length es])"
proof (induction es arbitrary: seen)
  case Nil
  then show ?case by simp
next
  case (Cons e es)
  have upt: "[0..<length (e # es)] = 0 # map Suc [0..<length es]"
    by (simp add: upt_conv_Cons map_Suc_upt del: upt_Suc)
  have shift: "filter (\<lambda>i. id_email ((e # es) ! i) \<notin> seen \<union> id_email ` set (take i (e # es)))
                 (map Suc [0..<length es])
               = map Suc (filter (\<lambda>j. id_email (es ! j)
                                        \<notin> insert (id_email e) seen \<union> id_email ` set (take j es))
                            [0..<length es])"
    by (auto simp: filter_map comp_def intro!: filter_cong)
  have idx: "map (\<lambda>i. (e # es) ! i)
               (filter (\<lambda>i. id_email ((e # es) ! i)
                             \<notin> seen \<union> id_email ` set (take i (e # es)))
                  [0..<length (e # es)])
             = (if id_email e \<in> seen then [] else [e])
               @ map (\<lambda>j. es ! j)
                   (filter (\<lambda>j. id_email (es ! j)
                                \<notin> insert (id_email e) seen \<union> id_email ` set (take j es))
                      [0..<length es])"
    unfolding upt filter.simps shift by (simp add: comp_def)
  show ?case
  proof (cases "id_email e \<in> seen")
    case True
    then have "insert (id_email e) seen = seen" by auto
    then show ?thesis
      using True Cons.IH [of seen] by (simp only: idx) simp
  next
    case False
    then show ?thesis
      using Cons.IH [of "insert (id_email e) seen"] by (simp only: idx) simp
  qed
qed

text \<open>
  C3. For every dictionary of categories, the messages the auto-clean branch hands to the
  executor have pairwise different ids; they are the first encounters, by position, of the
  messages in category-then-member-then-message order; and when that sequence has no id
  twice, it is returned unchanged.
\<close>

theorem auto_clean_first_encounters:
  "distinct (map id_email (auto_clean_emails cats))
   \<and> auto_clean_emails cats = first_encounters (encounter_order cats)
   \<and> (distinct (map id_email (encounter_order cats))
        \<longrightarrow> auto_clean_emails cats = encounter_order cats)"
proof -
  have eq: "auto_clean_emails cats = firsts {} (encounter_order cats)"
    by (rule auto_clean_firsts)
  have no_dup: "distinct (map id_email (auto_clean_emails cats))"
    by (simp add: eq firsts_distinct)
  have placed: "auto_clean_emails cats = first_encounters (encounter_order cats)"
    by (simp add: eq firsts_positions first_encounters_def)
  have same: "distinct (map id_email (encounter_order cats))
        \<longrightarrow> auto_clean_emails cats = encounter_order cats"
    by (simp add: eq firsts_unchanged)
  show ?thesis
    by (intro conjI) (rule no_dup placed same)+
qed


theorem auto_clean_first_encounters_witness:
  "map id_email (encounter_order (take 1 sample_categories)) = [''m1'', ''m2'']
   \<and> auto_clean_emails (take 1 sample_categories) = encounter_order (take 1 sample_categories)
   \<and> map id_email (encounter_order sample_categories) = [''m1'', ''m2'', ''m1'']
   \<and> map id_email (first_encounters (encounter_order sample_categories)) = [''m1'', ''m2'']
   \<and> auto_clean_emails sample_categories = first_encounters (encounter_order sample_categories)"
proof -
  have one: "map id_email (encounter_order (take 1 sample_categories)) = [''m1'', ''m2'']"
    by (simp add: sample_categories_def encounter_order_def sample_stats_def sample_inbox_def
          shein_message_def)
  have two: "encounter_order sample_categories = sample_inbox @ [shein_message]"
    by (simp add: sample_categories_def encounter_order_def sample_stats_def old_stats_def)
  have ids: "map id_email (encounter_order sample_categories) = [''m1'', ''m2'', ''m1'']"
    by (simp add: two sample_inbox_def shein_message_def)
  have fe: "map id_email (first_encounters (encounter_order sample_categories)) = [''m1'', ''m2'']"
    by (simp add: two first_encounters_def sample_inbox_def shein_message_def upt_conv_Cons)
  have "distinct (map id_email (encounter_order (take 1 sample_categories)))
          \<longrightarrow> auto_clean_emails (take 1 sample_categories)
              = encounter_order (take 1 sample_categories)"
    using auto_clean_first_encounters [of "take 1 sample_categories"] by fast
  moreover have "distinct (map id_email (encounter_order (take 1 sample_categories)))"
    by (simp only: one) simp
  ultimately have kept: "auto_clean_emails (take 1 sample_categories)
                           = encounter_order (take 1 sample_categories)"
    by (rule mp)
  have placed: "auto_clean_emails sample_categories
                  = first_encounters (encounter_order sample_categories)"
    using auto_clean_first_encounters [of sample_categories] by fast
  show ?thesis
    by (intro conjI) (rule one kept ids fe placed)+
qed

section \<open>Properties of the categorizer\<close>

lemma map_of_add_sender:
  "map_of (add_sender k m n cats) key
   = map_option (\<lambda>c. if key = k
                       then c\<lparr>senders := senders c @ [m], email_count := email_count c + n\<rparr>
                       else c) (map_of cats key)"
  by (induction cats) (auto simp: add_sender_def)

lemma keys_add_sender [simp]: "map fst (add_sender k m n cats) = map fst cats"
  by (induction cats) (auto simp: add_sender_def)

lemma members_add_sender:
  "members key (add_sender k m n cats)
   = members key cats @ (if key = k \<and> key \<in> fst ` set cats then [m] else [])"
proof (cases "map_of cats key")
  case None
  then have "key \<notin> fst ` set cats" by (simp add: map_of_eq_None_iff)
  with None show ?thesis by (simp add: members_def map_of_add_sender)
next
  case (Some c)
  then have "key \<in> fst ` set cats" by (metis map_of_eq_None_iff option.distinct(1))
  with Some show ?thesis by (simp add: members_def map_of_add_sender)
qed

lemma keys_opened_rules [simp]: "map fst (opened_rules addr st cats) = map fst cats"
  by (simp add: opened_rules_def)

lemma keys_bulk_rule [simp]: "map fst (bulk_rule addr st cats) = map fst cats"
  by (simp add: bulk_rule_def)

lemma keys_old_unread_rule [simp]: "map fst (old_unread_rule p addr st cats) = map fst cats"
  by (simp add: old_unread_rule_def Let_def)

lemma keys_gmail_step [simp]: "map fst (gmail_categorize_sender sp t cats item) = map fst cats"
  by (cases item) (simp add: gmail_categorize_sender_def Let_def)

lemma keys_outlook_step [simp]: "map fst (outlook_categorize_sender parse_iso t cats item) = map fst cats"
  by (cases item) (simp add: outlook_categorize_sender_def Let_def)

lemma keys_image:
  "fst ` set (add_sender k m n cats) = fst ` set cats"
  "fst ` set (opened_rules addr st cats) = fst ` set cats"
  "fst ` set (bulk_rule addr st cats) = fst ` set cats"
  "fst ` set (old_unread_rule p addr st cats) = fst ` set cats"
  "fst ` set (gmail_categorize_sender sp t cats item) = fst ` set cats"
  "fst ` set (outlook_categorize_sender parse_iso t cats item) = fst ` set cats"
  unfolding set_map [symmetric] by simp_all

lemma members_opened_rules:
  "members key (opened_rules addr st cats)
   = members key cats
     @ (if key \<in> fst ` set cats
           \<and> (key = ''never_opened'' \<and> never_opened_rule st
               \<or> key = ''rarely_opened'' \<and> rarely_opened_rule st) then [(addr, st)] else [])"
  by (simp add: opened_rules_def members_add_sender never_opened_rule_def
        rarely_opened_rule_def) blast

lemma members_bulk_rule:
  "key \<noteq> ''bulk_senders'' \<Longrightarrow> members key (bulk_rule addr st cats) = members key cats"
  by (simp add: bulk_rule_def members_add_sender)

lemma members_old_unread_rule:
  "members key (old_unread_rule is_old addr st cats)
   = members key cats
     @ (if key \<in> fst ` set cats \<and> key = ''old_unread''
        then old_unread_member is_old (addr, st) else [])"
  by (simp add: old_unread_rule_def members_add_sender old_unread_member_def Let_def) blast

lemma members_gmail_step:
  assumes "key \<in> fst ` set cats" "key \<in> {''never_opened'', ''rarely_opened'', ''old_unread''}"
  shows "members key (gmail_categorize_sender sp t cats (addr, st))
         = members key cats
           @ (if key = ''never_opened'' \<and> never_opened_rule st
                 \<or> key = ''rarely_opened'' \<and> rarely_opened_rule st then [(addr, st)] else [])
           @ (if key = ''old_unread'' then old_unread_member (gmail_is_old_unread sp t) (addr, st)
              else [])"
  using assms(2,1)
  by (elim insertE emptyE; hypsubst;
      simp add: gmail_categorize_sender_def Let_def members_old_unread_rule members_bulk_rule
        members_opened_rules keys_image members_add_sender)

lemma members_outlook_step:
  assumes "key \<in> fst ` set cats" "key \<in> {''never_opened'', ''rarely_opened'', ''old_unread''}"
  shows "members key (outlook_categorize_sender parse_iso t cats (addr, st))
         = members key cats
           @ (if key = ''never_opened'' \<and> never_opened_rule st
                 \<or> key = ''rarely_opened'' \<and> rarely_opened_rule st then [(addr, st)] else [])
           @ (if key = ''old_unread'' then old_unread_member (outlook_is_old_unread parse_iso t) (addr, st)
              else [])"
  using assms(2,1)
  by (elim insertE emptyE; hypsubst;
      simp add: outlook_categorize_sender_def Let_def members_old_unread_rule members_bulk_rule
        members_opened_rules keys_image members_add_sender)

lemma members_gmail_fold:
  assumes "key \<in> fst ` set cats" "key \<in> {''never_opened'', ''rarely_opened'', ''old_unread''}"
  shows "members key (foldl (gmail_categorize_sender sp t) cats items)
         = members key cats @ concat (map (placed_by (gmail_is_old_unread sp t) key) items)"
  using assms(1)
proof (induction items arbitrary: cats)
  case Nil
  then show ?case by simp
next
  case (Cons item items)
  obtain addr st where item: "item = (addr, st)" by (cases item)
  have "key \<in> fst ` set (gmail_categorize_sender sp t cats item)"
    using Cons.prems by (simp add: keys_image)
  from Cons.IH [OF this] show ?case
    using members_gmail_step [OF Cons.prems assms(2), of sp t addr st]
    by (simp add: item placed_by_def)
qed

lemma members_outlook_fold:
  assumes "key \<in> fst ` set cats" "key \<in> {''never_opened'', ''rarely_opened'', ''old_unread''}"
  shows "members key (foldl (outlook_categorize_sender parse_iso t) cats items)
         = members key cats @ concat (map (placed_by (outlook_is_old_unread parse_iso t) key) items)"
  using assms(1)
proof (induction items arbitrary: cats)
  case Nil
  then show ?case by simp
next
  case (Cons item items)
  obtain addr st where item: "item = (addr, st)" by (cases item)
  have "key \<in> fst ` set (outlook_categorize_sender parse_iso t cats item)"
    using Cons.prems by (simp add: keys_image)
  from Cons.IH [OF this] show ?case
    using members_outlook_step [OF Cons.prems assms(2), of parse_iso t addr st]
    by (simp add: item placed_by_def)
qed

lemma map_of_sort_senders:
  "map_of (sort_senders cats) key
   = map_option (\<lambda>c. c\<lparr>senders := sort_key (\<lambda>x. - total_count (snd x)) (senders c)\<rparr>)
       (map_of cats key)"
  by (induction cats) (auto simp: sort_senders_def)

lemma members_sort_senders:
  "members key (sort_senders cats) = sort_key (\<lambda>x. - total_count (snd x)) (members key cats)"
  by (cases "map_of cats key") (simp_all add: members_def map_of_sort_senders)

lemma members_gmail_categorize:
  assumes "key \<in> {''never_opened'', ''rarely_opened'', ''old_unread''}"
  shows "members key (gmail_categorize_senders sp now items)
         = sort_key (\<lambda>x. - total_count (snd x))
             (concat (map (placed_by (gmail_is_old_unread sp (thirty_days_before now)) key) items))"
proof -
  have k: "key \<in> fst ` set gmail_categories"
    using assms by (auto simp: gmail_categories_def)
  have e: "members key gmail_categories = []"
    using assms by (auto simp: gmail_categories_def members_def empty_category_def)
  show ?thesis
    by (simp add: gmail_categorize_senders_def members_sort_senders
          members_gmail_fold [OF k assms] e)
qed

lemma members_outlook_categorize:
  assumes "key \<in> {''never_opened'', ''rarely_opened'', ''old_unread''}"
  shows "members key (outlook_categorize_senders parse_iso now items)
         = sort_key (\<lambda>x. - total_count (snd x))
             (concat (map (placed_by (outlook_is_old_unread parse_iso (thirty_days_before now)) key) items))"
proof -
  have k: "key \<in> fst ` set outlook_categories"
    using assms by (auto simp: outlook_categories_def)
  have e: "members key outlook_categories = []"
    using assms by (auto simp: outlook_categories_def members_def empty_category_def)
  show ?thesis
    by (simp add: outlook_categorize_senders_def members_sort_senders
          members_outlook_fold [OF k assms] e)
qed

lemma set_members_gmail:
  assumes "key \<in> {''never_opened'', ''rarely_opened'', ''old_unread''}"
  shows "set (members key (gmail_categorize_senders sp now items))
         = (\<Union>item\<in>set items.
              set (placed_by (gmail_is_old_unread sp (thirty_days_before now)) key item))"
  by (simp add: members_gmail_categorize [OF assms])

lemma set_members_outlook:
  assumes "key \<in> {''never_opened'', ''rarely_opened'', ''old_unread''}"
  shows "set (members key (outlook_categorize_senders parse_iso now items))
         = (\<Union>item\<in>set items.
              set (placed_by (outlook_is_old_unread parse_iso (thirty_days_before now)) key item))"
  by (simp add: members_outlook_categorize [OF assms])

lemma placed_never:
  "(m \<in> (\<Union>item\<in>set items. set (placed_by is_old ''never_opened'' item)))
   \<longleftrightarrow> m \<in> set items \<and> never_opened_rule (snd m)"
  by (auto simp: placed_by_def split: if_splits)

lemma placed_rarely:
  "(m \<in> (\<Union>item\<in>set items. set (placed_by is_old ''rarely_opened'' item)))
   \<longleftrightarrow> m \<in> set items \<and> rarely_opened_rule (snd m)"
  by (auto simp: placed_by_def split: if_splits)

lemma placed_in_opened:
  "placed_in ''never_opened'' (gmail_categorize_senders sp now items) m
     \<longleftrightarrow> m \<in> set items \<and> never_opened_rule (snd m)"
  "placed_in ''rarely_opened'' (gmail_categorize_senders sp now items) m
     \<longleftrightarrow> m \<in> set items \<and> rarely_opened_rule (snd m)"
  "placed_in ''never_opened'' (outlook_categorize_senders parse_iso now items) m
     \<longleftrightarrow> m \<in> set items \<and> never_opened_rule (snd m)"
  "placed_in ''rarely_opened'' (outlook_categorize_senders parse_iso now items) m
     \<longleftrightarrow> m \<in> set items \<and> rarely_opened_rule (snd m)"
  unfolding placed_in_def
  by (simp_all only: set_members_gmail set_members_outlook insertI1 insertI2
        placed_never placed_rarely)

text \<open>
  C4. For every dictionary of sender records and every pair of it, in the categories of
  both scripts: the pair is placed in \<^verbatim>\<open>never_opened\<close> iff \<open>total \<ge> 5\<close> and
  \<open>read = 0\<close>; it is placed in \<^verbatim>\<open>rarely_opened\<close> iff it is not placed in
  \<^verbatim>\<open>never_opened\<close> and \<open>total \<ge> 3\<close> and \<open>0 < read_rate < 0.2\<close>. So a sender with
  total 6 and read 0 is in the first and not in the second, and a sender with total 3 and
  read 0, whose rate is the quotient of the two, is in neither.
\<close>

theorem never_and_rarely_opened:
  "(addr, st) \<in> set sender_stats \<Longrightarrow>
   (\<forall>cats\<in>{gmail_categorize_senders strptime now sender_stats,
             outlook_categorize_senders fromisoformat now sender_stats}.
      (placed_in ''never_opened'' cats (addr, st) \<longleftrightarrow> total_count st \<ge> 5 \<and> read st = 0)
    \<and> (placed_in ''rarely_opened'' cats (addr, st)
         \<longleftrightarrow> \<not> placed_in ''never_opened'' cats (addr, st)
             \<and> total_count st \<ge> 3 \<and> 0 < read_rate st \<and> read_rate st < 2 / 10)
    \<and> (total_count st = 6 \<and> read st = 0
         \<longrightarrow> placed_in ''never_opened'' cats (addr, st)
             \<and> \<not> placed_in ''rarely_opened'' cats (addr, st))
    \<and> (total_count st = 3 \<and> read st = 0
         \<and> read_rate st = of_int (read st) / of_int (total_count st)
         \<longrightarrow> \<not> placed_in ''never_opened'' cats (addr, st)
             \<and> \<not> placed_in ''rarely_opened'' cats (addr, st)))"
  by (auto simp: placed_in_opened never_opened_rule_def rarely_opened_rule_def)

theorem never_and_rarely_opened_witness:
  "placed_in ''never_opened'' (gmail_categorize_senders (\<lambda>s fmt. None) 0 unread_senders)
     (''six@shein.com'', six_unread)
   \<and> \<not> placed_in ''rarely_opened'' (gmail_categorize_senders (\<lambda>s fmt. None) 0 unread_senders)
     (''six@shein.com'', six_unread)
   \<and> \<not> placed_in ''never_opened'' (gmail_categorize_senders (\<lambda>s fmt. None) 0 unread_senders)
     (''three@shein.com'', three_unread)
   \<and> \<not> placed_in ''rarely_opened'' (gmail_categorize_senders (\<lambda>s fmt. None) 0 unread_senders)
     (''three@shein.com'', three_unread)
   \<and> placed_in ''never_opened'' (outlook_categorize_senders (\<lambda>s. None) 0 unread_senders)
     (''six@shein.com'', six_unread)
   \<and> \<not> placed_in ''rarely_opened'' (outlook_categorize_senders (\<lambda>s. None) 0 unread_senders)
     (''six@shein.com'', six_unread)
   \<and> \<not> placed_in ''never_opened'' (outlook_categorize_senders (\<lambda>s. None) 0 unread_senders)
     (''three@shein.com'', three_unread)
   \<and> \<not> placed_in ''rarely_opened'' (outlook_categorize_senders (\<lambda>s. None) 0 unread_senders)
     (''three@shein.com'', three_unread)"
proof -
  have six: "(''six@shein.com'', six_unread) \<in> set unread_senders"
    and three: "(''three@shein.com'', three_unread) \<in> set unread_senders"
    by (simp_all add: unread_senders_def)
  have f6: "total_count six_unread = 6 \<and> read six_unread = 0"
    by (simp add: six_unread_def)
  have f3: "total_count three_unread = 3 \<and> read three_unread = 0
            \<and> read_rate three_unread = of_int (read three_unread) / of_int (total_count three_unread)"
    by (simp add: three_unread_def)
  show ?thesis
    using never_and_rarely_opened [OF six, of "\<lambda>s fmt. None" 0 "\<lambda>s. None"]
      never_and_rarely_opened [OF three, of "\<lambda>s fmt. None" 0 "\<lambda>s. None"] f6 f3
    by simp
qed

lemma placed_old:
  "(m \<in> (\<Union>item\<in>set items. set (placed_by is_old ''old_unread'' item)))
   \<longleftrightarrow> (\<exists>st. (fst m, st) \<in> set items \<and> filter is_old (emails st) \<noteq> []
              \<and> snd m = old_stats st (filter is_old (emails st)))"
proof (cases m)
  case (Pair a derived)
  show ?thesis
  proof
    assume "m \<in> (\<Union>item\<in>set items. set (placed_by is_old ''old_unread'' item))"
    then show "\<exists>st. (fst m, st) \<in> set items \<and> filter is_old (emails st) \<noteq> []
              \<and> snd m = old_stats st (filter is_old (emails st))"
      by (auto simp: Pair placed_by_def old_unread_member_def split: if_splits)
  next
    assume "\<exists>st. (fst m, st) \<in> set items \<and> filter is_old (emails st) \<noteq> []
              \<and> snd m = old_stats st (filter is_old (emails st))"
    then obtain st where st: "(a, st) \<in> set items" "filter is_old (emails st) \<noteq> []"
      "derived = old_stats st (filter is_old (emails st))"
      by (auto simp: Pair)
    have "m \<in> set (placed_by is_old ''old_unread'' (a, st))"
      using st by (simp add: Pair placed_by_def old_unread_member_def)
    with st(1) show "m \<in> (\<Union>item\<in>set items. set (placed_by is_old ''old_unread'' item))"
      by blast
  qed
qed

lemma placed_in_old:
  "placed_in ''old_unread'' (gmail_categorize_senders sp now items) m
     \<longleftrightarrow> (\<exists>st. (fst m, st) \<in> set items
              \<and> filter (gmail_is_old_unread sp (thirty_days_before now)) (emails st) \<noteq> []
              \<and> snd m = old_stats st
                           (filter (gmail_is_old_unread sp (thirty_days_before now)) (emails st)))"
  "placed_in ''old_unread'' (outlook_categorize_senders parse_iso now items) m
     \<longleftrightarrow> (\<exists>st. (fst m, st) \<in> set items
              \<and> filter (outlook_is_old_unread parse_iso (thirty_days_before now)) (emails st) \<noteq> []
              \<and> snd m = old_stats st
                           (filter (outlook_is_old_unread parse_iso (thirty_days_before now))
                              (emails st)))"
  unfolding placed_in_def
  by (simp_all only: set_members_gmail set_members_outlook insertI1 insertI2 placed_old)

lemma gmail_try_formats_None:
  "\<forall>fmt\<in>set fmts. sp s fmt = None \<Longrightarrow> \<not> gmail_try_formats sp t s fmts"
  by (induction fmts) auto

lemma gmail_unparsable_not_old:
  "\<forall>fmt\<in>set gmail_date_formats. sp (take 31 (date e)) fmt = None \<Longrightarrow>
   \<not> gmail_is_old_unread sp t e"
  by (simp add: gmail_is_old_unread_def gmail_try_formats_None)

lemma outlook_unparsable_not_old:
  "parse_iso (replace ''Z'' ''+00:00'' (receivedDateTime e)) = None \<Longrightarrow>
   \<not> outlook_is_old_unread parse_iso t e"
  by (simp add: outlook_is_old_unread_def)

lemma old_stats_emails [simp]: "emails (old_stats st old) = old"
  by (simp add: old_stats_def)

text \<open>
  C5. A message whose date no format parses (for Outlook, that \<^verbatim>\<open>fromisoformat\<close> rejects)
  is in the messages of no member of \<^verbatim>\<open>old_unread\<close>; the parse failure is the branch
  \<open>None\<close> of the model, and the function returns its categories all the same. Every
  message that does qualify, of any sender of the dictionary, is among the messages of a
  member of \<^verbatim>\<open>old_unread\<close> under its sender's address, whatever the other messages are.
\<close>

theorem unparsable_dates_are_skipped:
  "((\<forall>fmt\<in>set gmail_date_formats. strptime (take 31 (date e)) fmt = None)
     \<longrightarrow> (\<forall>(addr, derived)\<in>set (members ''old_unread''
                                   (gmail_categorize_senders strptime now sender_stats)).
            e \<notin> set (emails derived)))
   \<and> ((addr', st) \<in> set sender_stats \<and> e' \<in> set (emails st)
       \<and> gmail_is_old_unread strptime (thirty_days_before now) e'
     \<longrightarrow> (\<exists>derived. placed_in ''old_unread''
                      (gmail_categorize_senders strptime now sender_stats) (addr', derived)
                    \<and> e' \<in> set (emails derived)))
   \<and> (fromisoformat (replace ''Z'' ''+00:00'' (receivedDateTime e)) = None
     \<longrightarrow> (\<forall>(addr, derived)\<in>set (members ''old_unread''
                                   (outlook_categorize_senders fromisoformat now sender_stats)).
            e \<notin> set (emails derived)))
   \<and> ((addr', st) \<in> set sender_stats \<and> e' \<in> set (emails st)
       \<and> outlook_is_old_unread fromisoformat (thirty_days_before now) e'
     \<longrightarrow> (\<exists>derived. placed_in ''old_unread''
                      (outlook_categorize_senders fromisoformat now sender_stats) (addr', derived)
                    \<and> e' \<in> set (emails derived)))"
proof (intro conjI impI)
  assume u: "\<forall>fmt\<in>set gmail_date_formats. strptime (take 31 (date e)) fmt = None"
  show "\<forall>(addr, derived)\<in>set (members ''old_unread''
                                   (gmail_categorize_senders strptime now sender_stats)).
            e \<notin> set (emails derived)"
  proof (clarify)
    fix addr derived
    assume "(addr, derived) \<in> set (members ''old_unread''
                                   (gmail_categorize_senders strptime now sender_stats))"
      and e: "e \<in> set (emails derived)"
    then have "placed_in ''old_unread'' (gmail_categorize_senders strptime now sender_stats)
                 (addr, derived)"
      by (simp add: placed_in_def)
    then obtain st0 where
      "derived = old_stats st0
                   (filter (gmail_is_old_unread strptime (thirty_days_before now)) (emails st0))"
      by (auto simp: placed_in_old)
    with e have "gmail_is_old_unread strptime (thirty_days_before now) e" by simp
    with u gmail_unparsable_not_old [of strptime e "thirty_days_before now"]
    show False by blast
  qed
next
  assume a: "(addr', st) \<in> set sender_stats \<and> e' \<in> set (emails st)
       \<and> gmail_is_old_unread strptime (thirty_days_before now) e'"
  let ?old = "filter (gmail_is_old_unread strptime (thirty_days_before now)) (emails st)"
  have m: "e' \<in> set ?old" using a by simp
  then have "?old \<noteq> []" by (metis empty_iff list.set(1))
  then have "placed_in ''old_unread'' (gmail_categorize_senders strptime now sender_stats)
               (addr', old_stats st ?old)"
    using a by (auto simp: placed_in_old)
  then show "\<exists>derived. placed_in ''old_unread''
                      (gmail_categorize_senders strptime now sender_stats) (addr', derived)
                    \<and> e' \<in> set (emails derived)"
    using m by (intro exI [of _ "old_stats st ?old"]) simp
next
  assume u: "fromisoformat (replace ''Z'' ''+00:00'' (receivedDateTime e)) = None"
  show "\<forall>(addr, derived)\<in>set (members ''old_unread''
                                   (outlook_categorize_senders fromisoformat now sender_stats)).
            e \<notin> set (emails derived)"
  proof (clarify)
    fix addr derived
    assume "(addr, derived) \<in> set (members ''old_unread''
                                   (outlook_categorize_senders fromisoformat now sender_stats))"
      and e: "e \<in> set (emails derived)"
    then have "placed_in ''old_unread'' (outlook_categorize_senders fromisoformat now sender_stats)
                 (addr, derived)"
      by (simp add: placed_in_def)
    then obtain st0 where
      "derived = old_stats st0
                   (filter (outlook_is_old_unread fromisoformat (thirty_days_before now))
                      (emails st0))"
      by (auto simp: placed_in_old)
    with e have "outlook_is_old_unread fromisoformat (thirty_days_before now) e" by simp
    with u outlook_unparsable_not_old [of fromisoformat e "thirty_days_before now"]
    show False by blast
  qed
next
  assume a: "(addr', st) \<in> set sender_stats \<and> e' \<in> set (emails st)
       \<and> outlook_is_old_unread fromisoformat (thirty_days_before now) e'"
  let ?old = "filter (outlook_is_old_unread fromisoformat (thirty_days_before now)) (emails st)"
  have m: "e' \<in> set ?old" using a by simp
  then have "?old \<noteq> []" by (metis empty_iff list.set(1))
  then have "placed_in ''old_unread'' (outlook_categorize_senders fromisoformat now sender_stats)
               (addr', old_stats st ?old)"
    using a by (auto simp: placed_in_old)
  then show "\<exists>derived. placed_in ''old_unread''
                      (outlook_categorize_senders fromisoformat now sender_stats) (addr', derived)
                    \<and> e' \<in> set (emails derived)"
    using m by (intro exI [of _ "old_stats st ?old"]) simp
qed

lemma toy_dates:
  "\<forall>fmt\<in>set gmail_date_formats. toy_strptime (take 31 (date undated_message)) fmt = None"
  "toy_fromisoformat (replace ''Z'' ''+00:00'' (receivedDateTime undated_message)) = None"
  "gmail_is_old_unread toy_strptime (thirty_days_before toy_now) dated_message"
  "outlook_is_old_unread toy_fromisoformat (thirty_days_before toy_now) dated_message"
  by (simp_all add: gmail_date_formats_def toy_strptime_def toy_fromisoformat_def
        undated_message_def dated_message_def shein_message_def replace_def
        gmail_is_old_unread_def outlook_is_old_unread_def thirty_days_before_def toy_now_def)

lemma dated_senders_entry:
  "(''newsletter@shein.com'', dated_stats) \<in> set dated_senders
   \<and> dated_message \<in> set (emails dated_stats)"
  by (simp add: dated_senders_def dated_stats_def)

theorem unparsable_dates_are_skipped_witness:
  "(\<exists>derived. placed_in ''old_unread''
                 (gmail_categorize_senders toy_strptime toy_now dated_senders)
                 (''newsletter@shein.com'', derived)
        \<and> dated_message \<in> set (emails derived) \<and> undated_message \<notin> set (emails derived))
   \<and> (\<exists>derived. placed_in ''old_unread''
                 (outlook_categorize_senders toy_fromisoformat toy_now dated_senders)
                 (''newsletter@shein.com'', derived)
        \<and> dated_message \<in> set (emails derived) \<and> undated_message \<notin> set (emails derived))"
  using unparsable_dates_are_skipped
          [of toy_strptime undated_message toy_now dated_senders "''newsletter@shein.com''"
              dated_stats dated_message toy_fromisoformat]
        toy_dates dated_senders_entry
  unfolding placed_in_def by blast

lemma old_stats_derived: "derived_from is_old st (old_stats st (filter is_old (emails st)))"
  by (simp add: derived_from_def old_stats_def)

lemma build_old_stats_frame:
  assumes "stats < length h"
  shows "build_old_stats h stats old_unread_emails
         = (h @ [old_stats (h ! stats) old_unread_emails], length h)"
  using assms
  by (simp add: build_old_stats_def dict_copy_def set_emails_def set_total_def old_stats_def
        Let_def nth_append list_update_append)

text \<open>
  C10. Every member of \<^verbatim>\<open>old_unread\<close> is derived from a record of the dictionary under
  the same address: its messages are the qualifying ones, its total their number, and its
  read, unread, read rate, name, oldest, newest, marketing score and promotional flag are
  the sender's. In the store, building the derived record allocates a new object and
  leaves every object that was there, the sender's record among them, as it was.
\<close>

theorem old_unread_stats_frame:
  "(\<forall>(addr, derived)\<in>set (members ''old_unread''
                               (gmail_categorize_senders strptime now sender_stats)).
      \<exists>st. (addr, st) \<in> set sender_stats
         \<and> derived_from (gmail_is_old_unread strptime (thirty_days_before now)) st derived)
   \<and> (\<forall>(addr, derived)\<in>set (members ''old_unread''
                               (outlook_categorize_senders fromisoformat now sender_stats)).
      \<exists>st. (addr, st) \<in> set sender_stats
         \<and> derived_from (outlook_is_old_unread fromisoformat (thirty_days_before now)) st derived)
   \<and> (stats < length h \<longrightarrow>
        (case build_old_stats h stats old_unread_emails of
           (h', old) \<Rightarrow>
             old = length h \<and> take (length h) h' = h
             \<and> h' ! old = old_stats (h ! stats) old_unread_emails))"
proof (intro conjI)
  show "\<forall>(addr, derived)\<in>set (members ''old_unread''
                               (gmail_categorize_senders strptime now sender_stats)).
      \<exists>st. (addr, st) \<in> set sender_stats
         \<and> derived_from (gmail_is_old_unread strptime (thirty_days_before now)) st derived"
  proof (clarify)
    fix addr derived
    assume "(addr, derived) \<in> set (members ''old_unread''
                               (gmail_categorize_senders strptime now sender_stats))"
    then have "placed_in ''old_unread'' (gmail_categorize_senders strptime now sender_stats)
                 (addr, derived)"
      by (simp add: placed_in_def)
    then obtain st where "(addr, st) \<in> set sender_stats"
      "derived = old_stats st
                   (filter (gmail_is_old_unread strptime (thirty_days_before now)) (emails st))"
      by (auto simp: placed_in_old)
    then show "\<exists>st. (addr, st) \<in> set sender_stats
         \<and> derived_from (gmail_is_old_unread strptime (thirty_days_before now)) st derived"
      using old_stats_derived by blast
  qed
next
  show "\<forall>(addr, derived)\<in>set (members ''old_unread''
                               (outlook_categorize_senders fromisoformat now sender_stats)).
      \<exists>st. (addr, st) \<in> set sender_stats
         \<and> derived_from (outlook_is_old_unread fromisoformat (thirty_days_before now)) st derived"
  proof (clarify)
    fix addr derived
    assume "(addr, derived) \<in> set (members ''old_unread''
                               (outlook_categorize_senders fromisoformat now sender_stats))"
    then have "placed_in ''old_unread'' (outlook_categorize_senders fromisoformat now sender_stats)
                 (addr, derived)"
      by (simp add: placed_in_def)
    then obtain st where "(addr, st) \<in> set sender_stats"
      "derived = old_stats st
                   (filter (outlook_is_old_unread fromisoformat (thirty_days_before now))
                      (emails st))"
      by (auto simp: placed_in_old)
    then show "\<exists>st. (addr, st) \<in> set sender_stats
         \<and> derived_from (outlook_is_old_unread fromisoformat (thirty_days_before now)) st derived"
      using old_stats_derived by blast
  qed
next
  show "stats < length h \<longrightarrow>
        (case build_old_stats h stats old_unread_emails of
           (h', old) \<Rightarrow>
             old = length h \<and> take (length h) h' = h
             \<and> h' ! old = old_stats (h ! stats) old_unread_emails)"
    by (simp add: build_old_stats_frame)
qed

lemma dated_old_unread:
  "filter (gmail_is_old_unread toy_strptime (thirty_days_before toy_now)) (emails dated_stats)
   = [dated_message]"
  "filter (outlook_is_old_unread toy_fromisoformat (thirty_days_before toy_now))
     (emails dated_stats) = [dated_message]"
  using toy_dates
    gmail_unparsable_not_old [of toy_strptime undated_message "thirty_days_before toy_now"]
    outlook_unparsable_not_old [of toy_fromisoformat undated_message "thirty_days_before toy_now"]
  by (simp_all add: dated_stats_def)

lemma dated_placed:
  "placed_in ''old_unread'' (gmail_categorize_senders toy_strptime toy_now dated_senders)
     (''newsletter@shein.com'', old_stats dated_stats [dated_message])"
  "placed_in ''old_unread'' (outlook_categorize_senders toy_fromisoformat toy_now dated_senders)
     (''newsletter@shein.com'', old_stats dated_stats [dated_message])"
  unfolding placed_in_old
  by (rule exI [of _ dated_stats], simp add: dated_old_unread dated_senders_def)+

theorem old_unread_stats_frame_witness:
  "(\<exists>derived. placed_in ''old_unread''
                 (gmail_categorize_senders toy_strptime toy_now dated_senders)
                 (''newsletter@shein.com'', derived)
       \<and> derived_from (gmail_is_old_unread toy_strptime (thirty_days_before toy_now))
            dated_stats derived)
   \<and> (\<exists>derived. placed_in ''old_unread''
                 (outlook_categorize_senders toy_fromisoformat toy_now dated_senders)
                 (''newsletter@shein.com'', derived)
       \<and> derived_from (outlook_is_old_unread toy_fromisoformat (thirty_days_before toy_now))
            dated_stats derived)
   \<and> (case build_old_stats [dated_stats] 0 [dated_message] of
         (h', old) \<Rightarrow>
           old = 1 \<and> take 1 h' = [dated_stats]
           \<and> h' ! old = old_stats dated_stats [dated_message])"
proof -
  note frame = old_unread_stats_frame
                 [of toy_strptime toy_now dated_senders toy_fromisoformat 0 "[dated_stats]"
                    "[dated_message]"]
  have g: "\<exists>st. (''newsletter@shein.com'', st) \<in> set dated_senders
         \<and> derived_from (gmail_is_old_unread toy_strptime (thirty_days_before toy_now)) st
              (old_stats dated_stats [dated_message])"
    using frame dated_placed(1) unfolding placed_in_def by blast
  have out: "\<exists>st. (''newsletter@shein.com'', st) \<in> set dated_senders
         \<and> derived_from (outlook_is_old_unread toy_fromisoformat (thirty_days_before toy_now)) st
              (old_stats dated_stats [dated_message])"
    using frame dated_placed(2) unfolding placed_in_def by blast
  have store: "case build_old_stats [dated_stats] 0 [dated_message] of
         (h', old) \<Rightarrow>
           old = 1 \<and> take 1 h' = [dated_stats]
           \<and> h' ! old = old_stats dated_stats [dated_message]"
    using frame by simp
  have only: "\<And>st. (''newsletter@shein.com'', st) \<in> set dated_senders \<Longrightarrow> st = dated_stats"
    by (simp add: dated_senders_def)
  from g only have g': "derived_from (gmail_is_old_unread toy_strptime (thirty_days_before toy_now))
              dated_stats (old_stats dated_stats [dated_message])"
    by blast
  from out only have out': "derived_from
              (outlook_is_old_unread toy_fromisoformat (thirty_days_before toy_now))
              dated_stats (old_stats dated_stats [dated_message])"
    by blast
  show ?thesis
    using g' out' store dated_placed by blast
qed

section \<open>Properties of the selection expressions\<close>

lemma selection_parts:
  "lower (strip ''0-10'') = ''0-10''"
  "parse_range ''0-10'' = Inr (0, 10)"
  by (simp_all add: lower_def lower_char_def strip_def strip_chars_def isspace_def
        parse_range_def py_int_def digit_value_def)

text \<open>
  C7, at the range \<^verbatim>\<open>0-10\<close> over five displayed senders: the slice
  \<^verbatim>\<open>displayed[-1:10]\<close> is the last sender alone, which is neither the five senders
  (the range clipped to the list) nor the empty selection.
\<close>

theorem range_from_zero_selects_last:
  "resolve_selection ''0-10'' five_senders = [''s5'']
   \<and> resolve_selection ''0-10'' five_senders \<noteq> five_senders
   \<and> resolve_selection ''0-10'' five_senders \<noteq> []"
  by (simp add: resolve_selection_def selection_parts five_senders_def py_slice_def
        slice_bound_def Let_def)

text \<open>The range \<^verbatim>\<open>2-4\<close> selects the senders at positions 2, 3 and 4.\<close>

lemma range_two_to_four:
  "resolve_selection ''2-4'' five_senders = [''s2'', ''s3'', ''s4'']"
  by (simp add: resolve_selection_def five_senders_def py_slice_def
        slice_bound_def Let_def lower_def lower_char_def strip_def strip_chars_def isspace_def
        parse_range_def py_int_def digit_value_def)

text \<open>
  A line that is not \<^verbatim>\<open>all\<close> and that neither converts as a range nor as a list
  selects nothing.
\<close>

lemma malformed_selection_is_empty:
  assumes "lower (strip line) \<noteq> ''all''"
    and "parse_range (lower (strip line)) = Inl err1"
    and "parse_list (lower (strip line)) = Inl err2"
  shows "resolve_selection line displayed = []"
  using assms by (simp add: resolve_selection_def Let_def)

text \<open>The list branch rejects the index 0 that the range branch lets through.\<close>

lemma index_zero_is_rejected:
  "resolve_selection ''0'' five_senders = []"
  by (simp add: resolve_selection_def five_senders_def Let_def lower_def lower_char_def
        strip_def strip_chars_def isspace_def parse_list_def py_int_def digit_value_def)

end
